theory Spec2Isabelle
  imports Complex_Main "HOL-Library.Sublist"
begin

section \<open>Strings and numbers of the host language\<close>

text \<open>
  A string is the UTF-8 byte sequence of the JavaScript string, so every ASCII character
  is one \<open>char\<close> and the non-ASCII white space of ECMAScript is a two- or three-byte
  token. A number is a \<open>jsnum\<close>: \<open>Finite r\<close> is the double whose exact value is the
  rational \<open>r\<close>, and \<open>PosInfinity\<close>, \<open>NegInfinity\<close> and \<open>NaN\<close> are the three values
  that are not finite. Every operation that produces a number rounds its exact result to
  the nearest double (\<open>round_double\<close>). The sign of zero is not represented: the program
  never divides by a zero and prints both zeros as \<open>0\<close>.
\<close>

datatype jsnum = Finite rat | PosInfinity | NegInfinity | NaN

datatype error = Error string

fun isFinite :: "jsnum \<Rightarrow> bool" where
  "isFinite (Finite r) = True"
| "isFinite PosInfinity = False"
| "isFinite NegInfinity = False"
| "isFinite NaN = False"

subsection \<open>Rounding to a double\<close>

text \<open>
  IEEE 754 binary64, rounding to nearest, ties to even. A positive double is
  \<open>m * 2 ^ (e - 52)\<close> with \<open>m < 2 ^ 53\<close>, where \<open>e\<close> is the exponent of the value and at
  least -1022 (below \<open>2 ^ -1022\<close> the doubles are the multiples of \<open>2 ^ -1074\<close>); a
  value that rounds to \<open>2 ^ 1024\<close> or more is an infinity.
\<close>

definition pow2 :: "int \<Rightarrow> rat" where
  "pow2 e = (if 0 \<le> e then of_int (2 ^ nat e) else 1 / of_int (2 ^ nat (- e)))"

text \<open>The number of binary digits of a positive integer.\<close>

function bit_length :: "int \<Rightarrow> int" where
  "bit_length n = (if n \<le> 0 then 0 else 1 + bit_length (n div 2))"
  by pat_completeness auto
termination by (relation "measure nat") auto

declare bit_length.simps [simp del]

text \<open>The exponent \<open>e\<close> of a positive rational \<open>a\<close>: \<open>2 ^ e \<le> a < 2 ^ (e + 1)\<close>.\<close>

definition floorlog2 :: "rat \<Rightarrow> int" where
  "floorlog2 a = (if 1 \<le> a then bit_length \<lfloor>a\<rfloor> - 1 else - bit_length (\<lceil>1 / a\<rceil> - 1))"

definition round_half_even :: "rat \<Rightarrow> int" where
  "round_half_even y =
     (let f = \<lfloor>y\<rfloor>; d = y - of_int f
      in if d < 1 / 2 then f else if 1 / 2 < d then f + 1 else if even f then f else f + 1)"

text \<open>The nearest multiple of the unit in the last place, for a positive rational.\<close>

definition round_pos :: "rat \<Rightarrow> rat" where
  "round_pos a =
     (let e = max (floorlog2 a) (- 1022); ulp = pow2 (e - 52)
      in of_int (round_half_even (a / ulp)) * ulp)"

text \<open>
  The double nearest to a rational. A value below \<open>2 ^ 1023\<close> rounds to \<open>2 ^ 1023\<close> at
  most; any other value is tested against \<open>2 ^ 1024\<close> after rounding.
\<close>

definition double_value :: "rat \<Rightarrow> rat" where
  "double_value r = (if r = 0 then 0 else if 0 < r then round_pos r else - round_pos (- r))"

definition round_double :: "rat \<Rightarrow> jsnum" where
  "round_double r =
     (if r = 0 then Finite 0
      else if floorlog2 \<bar>r\<bar> < 1023 then Finite (double_value r)
      else if round_pos \<bar>r\<bar> < pow2 1024 then Finite (double_value r)
      else if 0 < r then PosInfinity else NegInfinity)"

text \<open>Multiplication and addition of numbers, with the IEEE rules for the infinities.\<close>

fun js_mul :: "jsnum \<Rightarrow> jsnum \<Rightarrow> jsnum" where
  "js_mul (Finite a) (Finite b) = round_double (a * b)"
| "js_mul NaN y = NaN"
| "js_mul x NaN = NaN"
| "js_mul PosInfinity (Finite b) = (if b = 0 then NaN else if 0 < b then PosInfinity else NegInfinity)"
| "js_mul NegInfinity (Finite b) = (if b = 0 then NaN else if 0 < b then NegInfinity else PosInfinity)"
| "js_mul (Finite a) PosInfinity = (if a = 0 then NaN else if 0 < a then PosInfinity else NegInfinity)"
| "js_mul (Finite a) NegInfinity = (if a = 0 then NaN else if 0 < a then NegInfinity else PosInfinity)"
| "js_mul PosInfinity PosInfinity = PosInfinity"
| "js_mul PosInfinity NegInfinity = NegInfinity"
| "js_mul NegInfinity PosInfinity = NegInfinity"
| "js_mul NegInfinity NegInfinity = PosInfinity"

fun js_add :: "jsnum \<Rightarrow> jsnum \<Rightarrow> jsnum" where
  "js_add (Finite a) (Finite b) = round_double (a + b)"
| "js_add NaN y = NaN"
| "js_add x NaN = NaN"
| "js_add PosInfinity NegInfinity = NaN"
| "js_add NegInfinity PosInfinity = NaN"
| "js_add PosInfinity y = PosInfinity"
| "js_add NegInfinity y = NegInfinity"
| "js_add x PosInfinity = PosInfinity"
| "js_add x NegInfinity = NegInfinity"

text \<open>The comparison \<open>x > y\<close>: false as soon as one side is \<open>NaN\<close>.\<close>

fun js_gt :: "jsnum \<Rightarrow> jsnum \<Rightarrow> bool" where
  "js_gt (Finite a) (Finite b) = (b < a)"
| "js_gt NaN y = False"
| "js_gt x NaN = False"
| "js_gt PosInfinity PosInfinity = False"
| "js_gt PosInfinity y = True"
| "js_gt x PosInfinity = False"
| "js_gt NegInfinity y = False"
| "js_gt x NegInfinity = True"

subsection \<open>White space and \<open>trim\<close>\<close>

text \<open>
  The code points ECMAScript strips in \<open>String.prototype.trim\<close> and skips at the start of
  \<open>parseFloat\<close> (WhiteSpace and LineTerminator), each as its UTF-8 bytes: U+0009 to
  U+000D, U+0020, U+00A0, U+1680, U+2000 to U+200A, U+2028, U+2029, U+202F, U+205F, U+3000
  and U+FEFF.
\<close>

definition ws_tokens :: "string list" where
  "ws_tokens =
    [[CHR 0x09], [CHR 0x0A], [CHR 0x0B], [CHR 0x0C], [CHR 0x0D], [CHR 0x20],
     [CHR 0xC2, CHR 0xA0],
     [CHR 0xE1, CHR 0x9A, CHR 0x80],
     [CHR 0xE2, CHR 0x80, CHR 0x80], [CHR 0xE2, CHR 0x80, CHR 0x81],
     [CHR 0xE2, CHR 0x80, CHR 0x82], [CHR 0xE2, CHR 0x80, CHR 0x83],
     [CHR 0xE2, CHR 0x80, CHR 0x84], [CHR 0xE2, CHR 0x80, CHR 0x85],
     [CHR 0xE2, CHR 0x80, CHR 0x86], [CHR 0xE2, CHR 0x80, CHR 0x87],
     [CHR 0xE2, CHR 0x80, CHR 0x88], [CHR 0xE2, CHR 0x80, CHR 0x89],
     [CHR 0xE2, CHR 0x80, CHR 0x8A],
     [CHR 0xE2, CHR 0x80, CHR 0xA8], [CHR 0xE2, CHR 0x80, CHR 0xA9],
     [CHR 0xE2, CHR 0x80, CHR 0xAF],
     [CHR 0xE2, CHR 0x81, CHR 0x9F],
     [CHR 0xE3, CHR 0x80, CHR 0x80],
     [CHR 0xEF, CHR 0xBB, CHR 0xBF]]"

text \<open>The length of the token of \<open>toks\<close> that starts \<open>s\<close>, or 0 when none does.\<close>

definition tok_len :: "string list \<Rightarrow> string \<Rightarrow> nat" where
  "tok_len toks s = (case find (\<lambda>w. prefix w s) toks of None \<Rightarrow> 0 | Some w \<Rightarrow> length w)"

function strip_tokens :: "string list \<Rightarrow> string \<Rightarrow> string" where
  "strip_tokens toks s =
     (if tok_len toks s = 0 then s else strip_tokens toks (drop (tok_len toks s) s))"
  by pat_completeness auto
termination
proof (relation "measure (\<lambda>(toks, s). length s)")
  show "wf (measure (\<lambda>(toks, s). length s))" by simp
next
  fix toks :: "string list" and s :: string
  assume nz: "tok_len toks s \<noteq> 0"
  have "s \<noteq> []"
  proof
    assume e: "s = []"
    have "tok_len toks [] = 0"
      by (induction toks) (auto simp: tok_len_def)
    with nz e show False by simp
  qed
  with nz show "((toks, drop (tok_len toks s) s), (toks, s)) \<in> measure (\<lambda>(toks, s). length s)"
    by simp
qed

declare strip_tokens.simps [simp del]

definition trimStart :: "string \<Rightarrow> string" where
  "trimStart s = strip_tokens ws_tokens s"

definition trimEnd :: "string \<Rightarrow> string" where
  "trimEnd s = rev (strip_tokens (map rev ws_tokens) (rev s))"

definition trim :: "string \<Rightarrow> string" where
  "trim s = trimEnd (trimStart s)"

subsection \<open>Decimal digits\<close>

definition is_digit :: "char \<Rightarrow> bool" where
  "is_digit c \<longleftrightarrow> 48 \<le> (of_char c :: nat) \<and> (of_char c :: nat) \<le> 57"

definition digit_val :: "char \<Rightarrow> int" where
  "digit_val c = of_char c - 48"

definition digits_val :: "string \<Rightarrow> int" where
  "digits_val ds = foldl (\<lambda>a c. 10 * a + digit_val c) 0 ds"

text \<open>The value of the decimal literal with integer digits \<open>ip\<close> and fraction digits \<open>fp\<close>.\<close>

definition dec_val :: "string \<Rightarrow> string \<Rightarrow> rat" where
  "dec_val ip fp = of_int (digits_val ip) + of_int (digits_val fp) / of_int (10 ^ length fp)"

definition pow10 :: "int \<Rightarrow> rat" where
  "pow10 e = (if 0 \<le> e then of_int (10 ^ nat e) else 1 / of_int (10 ^ nat (- e)))"

subsection \<open>\<open>parseFloat\<close>\<close>

text \<open>
  ECMAScript's \<open>parseFloat\<close>: skip leading white space, then read the longest prefix that
  is a StrDecimalLiteral (a sign, then \<open>Infinity\<close> or digits with an optional fraction and
  an optional exponent); whatever follows is ignored, and \<open>NaN\<close> is the result when no
  prefix is a literal. The value is the double nearest to the decimal value of the
  literal: an infinity for a literal of 1.8e308 or more, and 0 for one below 2.5e-324.
\<close>

definition exponent_part :: "string \<Rightarrow> int" where
  "exponent_part r =
     (case r of
        [] \<Rightarrow> 0
      | c # r1 \<Rightarrow>
          if c = CHR ''e'' \<or> c = CHR ''E'' then
            (case r1 of
               [] \<Rightarrow> 0
             | d # r2 \<Rightarrow>
                 if d = CHR ''-'' then
                   (if takeWhile is_digit r2 = [] then 0
                    else - digits_val (takeWhile is_digit r2))
                 else if d = CHR ''+'' then
                   (if takeWhile is_digit r2 = [] then 0
                    else digits_val (takeWhile is_digit r2))
                 else digits_val (takeWhile is_digit r1))
          else 0)"

definition parse_unsigned :: "string \<Rightarrow> rat option" where
  "parse_unsigned s =
     (let ip = takeWhile is_digit s;
          r1 = dropWhile is_digit s;
          fp = (case r1 of [] \<Rightarrow> [] | c # r \<Rightarrow> if c = CHR ''.'' then takeWhile is_digit r else []);
          r2 = (case r1 of [] \<Rightarrow> [] | c # r \<Rightarrow> if c = CHR ''.'' then dropWhile is_digit r else r1)
      in if ip = [] \<and> fp = [] then None
         else Some (dec_val ip fp * pow10 (exponent_part r2)))"

definition parseFloat :: "string \<Rightarrow> jsnum" where
  "parseFloat input =
     (let s = trimStart input;
          neg = (case s of [] \<Rightarrow> False | c # r \<Rightarrow> c = CHR ''-'');
          s1 = (case s of [] \<Rightarrow> [] | c # r \<Rightarrow> if c = CHR ''-'' \<or> c = CHR ''+'' then r else s)
      in if prefix ''Infinity'' s1 then (if neg then NegInfinity else PosInfinity)
         else (case parse_unsigned s1 of
                 None \<Rightarrow> NaN
               | Some v \<Rightarrow> round_double (if neg then - v else v)))"

section \<open>Time parser (src/utils/time.ts)\<close>

subsection \<open>The regular expressions\<close>

text \<open>
  The fragment \<open>\d+(?:\.\d+)?\<close> read at the start of a string: the digits, then a dot
  with digits when they are there. The result is the text read and the rest. The fragment
  is deterministic (a shorter run of digits is followed by a digit, which nothing after
  the fragment accepts), so backtracking finds no other match.
\<close>

definition match_decimal :: "string \<Rightarrow> (string \<times> string) option" where
  "match_decimal s =
     (let ip = takeWhile is_digit s; r = dropWhile is_digit s
      in if ip = [] then None
         else (case r of
                 [] \<Rightarrow> Some (ip, r)
               | c # r1 \<Rightarrow>
                   if c = CHR ''.'' \<and> takeWhile is_digit r1 \<noteq> []
                   then Some (ip @ c # takeWhile is_digit r1, dropWhile is_digit r1)
                   else Some (ip, r)))"

text \<open>\<open>/^\d+(?:\.\d+)?$/.test\<close>\<close>

definition numeric_re :: "string \<Rightarrow> bool" where
  "numeric_re s = (case match_decimal s of None \<Rightarrow> False | Some (n, r) \<Rightarrow> r = [])"

text \<open>
  One optional group \<open>(?:(\d+(?:\.\d+)?)u)?\<close> of the unit expression, under the flag
  \<open>i\<close>: the capture and the rest, or no capture and the string untouched.
\<close>

definition match_unit_part :: "char \<Rightarrow> char \<Rightarrow> string \<Rightarrow> string option \<times> string" where
  "match_unit_part lo up s =
     (case match_decimal s of
        None \<Rightarrow> (None, s)
      | Some (n, r) \<Rightarrow>
          (case r of
             [] \<Rightarrow> (None, s)
           | c # r1 \<Rightarrow> if c = lo \<or> c = up then (Some n, r1) else (None, s)))"

text \<open>The match of the unit expression: the three captures, when the whole string is read.\<close>

definition unit_re :: "string \<Rightarrow> (string option \<times> string option \<times> string option) option" where
  "unit_re s =
     (let (h, r1) = match_unit_part CHR ''h'' CHR ''H'' s;
          (m, r2) = match_unit_part CHR ''m'' CHR ''M'' r1;
          (sec, r3) = match_unit_part CHR ''s'' CHR ''S'' r2
      in if r3 = [] then Some (h, m, sec) else None)"

subsection \<open>\<open>parseTimeToSeconds\<close>\<close>

text \<open>\<open>String.prototype.split\<close> on a one-character separator.\<close>

fun split_on :: "char \<Rightarrow> string \<Rightarrow> string list" where
  "split_on d [] = [[]]"
| "split_on d (c # cs) =
     (if c = d then [] # split_on d cs
      else (c # hd (split_on d cs)) # tl (split_on d cs))"

text \<open>\<open>unitMatch[k] ?? "0"\<close>\<close>

definition capture_or_zero :: "string option \<Rightarrow> string" where
  "capture_or_zero g = (case g of None \<Rightarrow> ''0'' | Some t \<Rightarrow> t)"

text \<open>The unit branch: the total when the expression matches and the total is positive.\<close>

definition unit_branch :: "string \<Rightarrow> jsnum option" where
  "unit_branch trimmed =
     (case unit_re trimmed of
        None \<Rightarrow> None
      | Some (g1, g2, g3) \<Rightarrow>
          (let hours = parseFloat (capture_or_zero g1);
               minutes = parseFloat (capture_or_zero g2);
               seconds = parseFloat (capture_or_zero g3);
               tot = js_add (js_add (js_mul hours (Finite 3600)) (js_mul minutes (Finite 60))) seconds
           in if js_gt tot (Finite 0) then Some tot else None))"

text \<open>
  The clock branch: \<open>None\<close> when control falls through to the final \<open>throw\<close>, otherwise
  the value returned or the error thrown inside the branch.
\<close>

definition clock_branch :: "string \<Rightarrow> (error + jsnum) option" where
  "clock_branch trimmed =
     (if CHR '':'' \<in> set trimmed then
        (let parts = map trim (split_on CHR '':'' trimmed)
         in if list_ex (\<lambda>p. p = []) parts then Some (Inl (Error ''Invalid time format''))
            else (case map parseFloat parts of
                    [mm, ss] \<Rightarrow>
                      if isFinite mm \<and> isFinite ss
                      then Some (Inr (js_add (js_mul mm (Finite 60)) ss))
                      else None
                  | [hh, mm, ss] \<Rightarrow>
                      if isFinite hh \<and> isFinite mm \<and> isFinite ss
                      then Some (Inr (js_add (js_add (js_mul hh (Finite 3600)) (js_mul mm (Finite 60))) ss))
                      else None
                  | _ \<Rightarrow> None))
      else None)"

definition parseTimeToSeconds :: "string \<Rightarrow> error + jsnum" where
  "parseTimeToSeconds input =
     (let trimmed = trim input
      in if trimmed = [] then Inl (Error ''Time is empty'')
         else if numeric_re trimmed then Inr (parseFloat trimmed)
         else (case unit_branch trimmed of
                 Some tot \<Rightarrow> Inr tot
               | None \<Rightarrow>
                   (case clock_branch trimmed of
                      Some r \<Rightarrow> r
                    | None \<Rightarrow> Inl (Error (''Unsupported time format: '' @ input)))))"

subsection \<open>\<open>secondsToHms\<close>\<close>

text \<open>The decimal digits of a non-negative integer.\<close>

function digits_of :: "int \<Rightarrow> string" where
  "digits_of n =
     (if n < 10 then [char_of (48 + nat n)]
      else digits_of (n div 10) @ [char_of (48 + nat (n mod 10))])"
  by pat_completeness auto
termination by (relation "measure nat") auto

declare digits_of.simps [simp del]

text \<open>
  \<open>String(x)\<close> for a whole number \<open>x\<close> that is not negative (Number::toString): below
  1e21 the decimal digits of \<open>x\<close>; from 1e21 the exponent notation, with the fewest
  digits \<open>s\<close> such that \<open>s * 10 ^ p\<close> is read back as the double \<open>x\<close>, and among these
  the \<open>s\<close> nearest to \<open>x\<close> (the even one of two equally near). Seventeen digits always
  read back as the same double.
\<close>

definition reads_back :: "rat \<Rightarrow> int \<Rightarrow> nat \<Rightarrow> bool" where
  "reads_back x s p \<longleftrightarrow> round_double (of_int (s * 10 ^ p)) = Finite x"

definition closest_digits :: "rat \<Rightarrow> nat \<Rightarrow> int option" where
  "closest_digits x p =
     (let lo = \<lfloor>x / 10 ^ p\<rfloor>; hi = lo + 1;
          dl = x - of_int (lo * 10 ^ p); dh = of_int (hi * 10 ^ p) - x
      in if reads_back x lo p \<and> reads_back x hi p
         then Some (if dl < dh then lo else if dh < dl then hi else if even lo then lo else hi)
         else if reads_back x lo p then Some lo
         else if reads_back x hi p then Some hi
         else None)"

definition exponent_notation :: "int \<Rightarrow> string" where
  "exponent_notation v =
     (let x = double_value (of_int v);
          n = length (digits_of \<lfloor>x\<rfloor>);
          p = (case find (\<lambda>p. closest_digits x p \<noteq> None) (rev [n - 17 ..< n]) of
                 None \<Rightarrow> n - 17 | Some p \<Rightarrow> p);
          s = (case closest_digits x p of None \<Rightarrow> \<lfloor>x / 10 ^ p\<rfloor> | Some s \<Rightarrow> s);
          ds = digits_of s;
          m = rev (dropWhile (\<lambda>c. c = CHR ''0'') (rev ds))
      in hd m # (if tl m = [] then [] else CHR ''.'' # tl m)
         @ ''e+'' @ digits_of (int (length ds - 1 + p)))"

definition number_to_string :: "int \<Rightarrow> string" where
  "number_to_string v = (if v < 10 ^ 21 then digits_of v else exponent_notation v)"

text \<open>\<open>s.padStart(2, "0")\<close>\<close>

definition padStart2 :: "string \<Rightarrow> string" where
  "padStart2 s = replicate (2 - length s) CHR ''0'' @ s"

text \<open>
  The three fields of a whole number of seconds that is not negative. \<open>seconds / 3600\<close>
  and \<open>(seconds % 3600) / 60\<close> are rounded to a double before \<open>Math.floor\<close>; the
  remainder \<open>%\<close> of two whole numbers is exact.
\<close>

definition hms_of_int :: "int \<Rightarrow> string" where
  "hms_of_int seconds =
     (let h = \<lfloor>double_value (of_int seconds / 3600)\<rfloor>;
          m = \<lfloor>double_value (of_int (seconds mod 3600) / 60)\<rfloor>;
          s = seconds mod 60
      in padStart2 (number_to_string h) @ '':'' @ padStart2 (number_to_string m) @ '':''
         @ padStart2 (number_to_string s))"

text \<open>
  \<open>Math.floor\<close> keeps \<open>NaN\<close> and the infinities; \<open>Math.max(0, NaN)\<close> is \<open>NaN\<close>,
  \<open>Math.max(0, -Infinity)\<close> is 0; \<open>Infinity % 3600\<close> is \<open>NaN\<close>.
\<close>

fun secondsToHms :: "jsnum \<Rightarrow> string" where
  "secondsToHms (Finite r) = hms_of_int (max 0 \<lfloor>r\<rfloor>)"
| "secondsToHms NegInfinity = hms_of_int 0"
| "secondsToHms PosInfinity = ''Infinity:NaN:NaN''"
| "secondsToHms NaN = ''NaN:NaN:NaN''"

subsection \<open>Vocabulary of the statements about the time parser\<close>

text \<open>A printable ASCII character other than the space: no white-space token starts or ends with one.\<close>

definition printable :: "char \<Rightarrow> bool" where
  "printable c \<longleftrightarrow> 33 \<le> (of_char c :: nat) \<and> (of_char c :: nat) \<le> 126"

text \<open>
  The text of a non-negative decimal: integer digits \<open>ip\<close>, and a dot with the fraction
  digits \<open>fp\<close> when there are any.
\<close>

definition decimal_text :: "string \<Rightarrow> string \<Rightarrow> string" where
  "decimal_text ip fp = (if fp = [] then ip else ip @ CHR ''.'' # fp)"

text \<open>
  A decimal is given by its digits \<open>(ip, fp)\<close>: it is valid when the integer part is not
  empty and both parts are digits; its value is \<open>dec_val ip fp\<close>.
\<close>

definition valid_decimal :: "string \<times> string \<Rightarrow> bool" where
  "valid_decimal d \<longleftrightarrow> fst d \<noteq> [] \<and> list_all is_digit (fst d) \<and> list_all is_digit (snd d)"

definition decimal_value :: "string \<times> string \<Rightarrow> rat" where
  "decimal_value d = dec_val (fst d) (snd d)"

text \<open>The number a decimal is read as: the double nearest to its value.\<close>

definition decimal_number :: "string \<times> string \<Rightarrow> jsnum" where
  "decimal_number d = round_double (decimal_value d)"

text \<open>A whole decimal has no fraction digits.\<close>

definition whole_decimal :: "string \<times> string \<Rightarrow> bool" where
  "whole_decimal d \<longleftrightarrow> valid_decimal d \<and> snd d = []"

text \<open>
  A compound unit expression: an optional decimal with the hour letter, then one with the
  minute letter, then one with the second letter. An absent part counts 0 in the sum.
\<close>

definition valid_part :: "(string \<times> string) option \<Rightarrow> bool" where
  "valid_part p = (case p of None \<Rightarrow> True | Some d \<Rightarrow> valid_decimal d)"

definition part_value :: "(string \<times> string) option \<Rightarrow> rat" where
  "part_value p = (case p of None \<Rightarrow> 0 | Some d \<Rightarrow> decimal_value d)"

definition part_number :: "(string \<times> string) option \<Rightarrow> jsnum" where
  "part_number p = round_double (part_value p)"

definition whole_part :: "(string \<times> string) option \<Rightarrow> bool" where
  "whole_part p = (case p of None \<Rightarrow> True | Some d \<Rightarrow> whole_decimal d)"

definition unit_part_text :: "char \<Rightarrow> (string \<times> string) option \<Rightarrow> string" where
  "unit_part_text u p = (case p of None \<Rightarrow> [] | Some d \<Rightarrow> decimal_text (fst d) (snd d) @ [u])"

definition unit_text ::
  "char \<Rightarrow> char \<Rightarrow> char \<Rightarrow> (string \<times> string) option \<Rightarrow> (string \<times> string) option \<Rightarrow>
   (string \<times> string) option \<Rightarrow> string" where
  "unit_text uh um us h m s = unit_part_text uh h @ unit_part_text um m @ unit_part_text us s"

definition unit_sum ::
  "(string \<times> string) option \<Rightarrow> (string \<times> string) option \<Rightarrow> (string \<times> string) option \<Rightarrow> rat" where
  "unit_sum h m s = 3600 * part_value h + 60 * part_value m + part_value s"

text \<open>The same sum in the arithmetic of the numbers: each product and each sum is rounded.\<close>

definition unit_total ::
  "(string \<times> string) option \<Rightarrow> (string \<times> string) option \<Rightarrow> (string \<times> string) option \<Rightarrow> jsnum" where
  "unit_total h m s =
     js_add (js_add (js_mul (part_number h) (Finite 3600)) (js_mul (part_number m) (Finite 60)))
       (part_number s)"

text \<open>The field arithmetic of a clock expression, in the arithmetic of the numbers.\<close>

definition clock_total2 :: "jsnum \<Rightarrow> jsnum \<Rightarrow> jsnum" where
  "clock_total2 mm ss = js_add (js_mul mm (Finite 60)) ss"

definition clock_total3 :: "jsnum \<Rightarrow> jsnum \<Rightarrow> jsnum \<Rightarrow> jsnum" where
  "clock_total3 hh mm ss = js_add (js_add (js_mul hh (Finite 3600)) (js_mul mm (Finite 60))) ss"

text \<open>A number that is not negative: a finite one from 0, or the positive infinity.\<close>

fun js_nonneg :: "jsnum \<Rightarrow> bool" where
  "js_nonneg (Finite r) = (0 \<le> r)"
| "js_nonneg PosInfinity = True"
| "js_nonneg NegInfinity = False"
| "js_nonneg NaN = False"

text \<open>A clock expression: the texts of its fields, with a colon between two fields.\<close>

fun clock_text :: "(string \<times> string) list \<Rightarrow> string" where
  "clock_text [] = []"
| "clock_text [d] = decimal_text (fst d) (snd d)"
| "clock_text (d # ds) = decimal_text (fst d) (snd d) @ CHR '':'' # clock_text ds"

text \<open>The six letters of the unit expression, and the capture a part leaves in the match.\<close>

definition unit_letter :: "char \<Rightarrow> bool" where
  "unit_letter c \<longleftrightarrow> c \<in> {CHR ''h'', CHR ''H'', CHR ''m'', CHR ''M'', CHR ''s'', CHR ''S''}"

definition part_capture :: "(string \<times> string) option \<Rightarrow> string option" where
  "part_capture p = map_option (\<lambda>d. decimal_text (fst d) (snd d)) p"

text \<open>The three fields of \<open>n\<close> seconds, as decimals: hours, minutes and seconds of two digits or more.\<close>

definition hms_fields :: "int \<Rightarrow> (string \<times> string) list" where
  "hms_fields n =
     [(padStart2 (digits_of (n div 3600)), []),
      (padStart2 (digits_of ((n mod 3600) div 60)), []),
      (padStart2 (digits_of (n mod 60)), [])]"

section \<open>Clip extraction (src/services/ytdlp.ts)\<close>

subsection \<open>Options, environment and the argument vector\<close>

text \<open>
  An optional string property is a \<open>string option\<close>; \<open>None\<close> is \<open>undefined\<close>. The
  operator \<open>||\<close> takes its right operand when the left one is \<open>undefined\<close> or the empty
  string.
\<close>

definition truthy :: "string option \<Rightarrow> bool" where
  "truthy v = (case v of None \<Rightarrow> False | Some s \<Rightarrow> s \<noteq> [])"

definition js_or :: "string option \<Rightarrow> string option \<Rightarrow> string option" where
  "js_or a b = (if truthy a then a else b)"

definition or_default :: "string option \<Rightarrow> string \<Rightarrow> string" where
  "or_default a d = (case a of None \<Rightarrow> d | Some s \<Rightarrow> if s = [] then d else s)"

datatype format = Mp4 | Webm

record ClipOptions =
  url :: string
  startSeconds :: jsnum
  endSeconds :: jsnum
  outputDirectory :: "string option"
  outputBaseName :: "string option"
  cookieHeader :: "string option"
  cookiesTxtPath :: "string option"
  format :: "format option"
  userAgent :: "string option"
  timeoutMs :: "jsnum option"

text \<open>The three variables of \<open>process.env\<close> the argument vector reads.\<close>

record Env =
  YOUTUBE_USER_AGENT :: "string option"
  YOUTUBE_COOKIE_HEADER :: "string option"
  YT_COOKIES_FILE :: "string option"

definition DEFAULT_UA :: string where
  "DEFAULT_UA =
     ''Mozilla/5.0 (Windows NT 10.0; Win64; x64) AppleWebKit/537.36 '' @
     ''(KHTML, like Gecko) Chrome/122.0.0.0 Safari/537.36''"

text \<open>
  \<open>buildYtDlpArgs\<close>: the array literal, then the \<open>push\<close> calls in the order of the
  source. The options it receives have a format; a \<open>ClipOptions\<close> without one takes
  neither branch, as a value other than the two strings would.
\<close>

definition buildYtDlpArgs :: "Env \<Rightarrow> ClipOptions \<Rightarrow> string \<Rightarrow> string list" where
  "buildYtDlpArgs env opts outputPathWithoutExt =
     (let start = secondsToHms (startSeconds opts);
          end_t = secondsToHms (endSeconds opts);
          args0 = [url opts, ''-f'', ''bv*+ba/b'', ''--no-playlist'', ''--no-progress'',
                   ''--newline'', ''--force-keyframes-at-cuts'', ''--download-sections'',
                   ''*'' @ start @ ''-'' @ end_t, ''-o'', outputPathWithoutExt @ ''.%(ext)s''];
          args1 = (if format opts = Some Mp4 then args0 @ [''--remux-video'', ''mp4'']
                   else if format opts = Some Webm then args0 @ [''--merge-output-format'', ''webm'']
                   else args0);
          ua = or_default (js_or (userAgent opts) (YOUTUBE_USER_AGENT env)) DEFAULT_UA;
          args2 = args1 @ [''--add-header'', ''User-Agent: '' @ ua];
          args3 = args2 @ [''--add-header'', ''Accept-Language: en-US,en;q=0.9''];
          args4 = args3 @ [''--add-header'', ''DNT: 1''];
          envCookieHeader = YOUTUBE_COOKIE_HEADER env;
          envCookiesFile = YT_COOKIES_FILE env;
          cookieHeader_r = js_or (cookieHeader opts) envCookieHeader;
          cookiesFile = js_or (cookiesTxtPath opts) envCookiesFile;
          args5 = (case cookieHeader_r of
                     None \<Rightarrow> args4
                   | Some c \<Rightarrow> if c = [] then args4 else args4 @ [''--add-header'', ''Cookie: '' @ c]);
          args6 = (case cookiesFile of
                     None \<Rightarrow> args5
                   | Some f \<Rightarrow> if f = [] then args5 else args5 @ [''--cookies'', f])
      in args6)"

text \<open>
  The vocabulary of the statement about the argument vector: the first of a list of
  optional values that is present (defined and not empty), and the arguments a present
  value contributes.
\<close>

fun first_present :: "string option list \<Rightarrow> string option" where
  "first_present [] = None"
| "first_present (None # vs) = first_present vs"
| "first_present (Some s # vs) = (if s = [] then first_present vs else Some s)"

definition container_args :: "format option \<Rightarrow> string list" where
  "container_args f =
     (case f of
        None \<Rightarrow> []
      | Some Mp4 \<Rightarrow> [''--remux-video'', ''mp4'']
      | Some Webm \<Rightarrow> [''--merge-output-format'', ''webm''])"

definition when_present :: "string option \<Rightarrow> (string \<Rightarrow> string list) \<Rightarrow> string list" where
  "when_present v f = (case v of None \<Rightarrow> [] | Some s \<Rightarrow> f s)"

subsection \<open>The platform\<close>

text \<open>
  What the child process does is given by the platform. \<open>events\<close> are the events the
  loop dispatches while the process is left alone, each with the time of its dispatch in
  milliseconds after the spawn; a run with no close and no error event is a process that
  does not end by itself. \<open>after_kill\<close> are the events the loop dispatches once a signal
  has been sent; a process the signal terminated closes with no exit code. \<open>writes\<close> are
  the paths the process has put on disk by the time it is closed.
\<close>

datatype signal = SIGTERM | SIGKILL

datatype proc_event =
    StdoutData string
  | StderrData string
  | ErrorEvent string
  | CloseEvent "int option"

record proc_run =
  events :: "(nat \<times> proc_event) list"
  after_kill :: "proc_event list"
  writes :: "string list"

text \<open>
  The rest of the platform: the environment, \<open>os.tmpdir()\<close>, \<open>Date.now()\<close>, the three
  functions of \<open>node:path\<close> the code calls, the outcome of the recursive \<open>fs.mkdir\<close>, the
  behaviour of \<open>yt-dlp\<close> on an argument vector, the paths \<open>fs.access\<close> finds before the
  spawn, and \<open>fs.readdir\<close> as it answers once the process is closed.
\<close>

record World =
  process_env :: Env
  tmpdir :: string
  now :: nat
  path_join :: "string \<Rightarrow> string \<Rightarrow> string"
  path_dirname :: "string \<Rightarrow> string"
  path_basename :: "string \<Rightarrow> string"
  mkdir :: "string \<Rightarrow> error option"
  spawn :: "string list \<Rightarrow> proc_run"
  files :: "string set"
  readdir :: "string \<Rightarrow> error + string list"

text \<open>A promise is resolved, rejected, or never settled.\<close>

datatype 'a settled = Resolved 'a | Rejected error | Never

subsection \<open>\<open>findProducedFile\<close>\<close>

text \<open>The first loop: \<open>fs.access\<close> on each candidate in turn.\<close>

fun probe :: "string set \<Rightarrow> (string \<Rightarrow> string \<Rightarrow> string) \<Rightarrow> string \<Rightarrow> string list \<Rightarrow> string option" where
  "probe fs join outputDir [] = None"
| "probe fs join outputDir (file # rest) =
     (let full = join outputDir file
      in if full \<in> fs then Some full else probe fs join outputDir rest)"

text \<open>The second loop: the first directory entry that starts with the base name and a dot.\<close>

fun scan :: "(string \<Rightarrow> string \<Rightarrow> string) \<Rightarrow> string \<Rightarrow> string \<Rightarrow> string list \<Rightarrow> string option" where
  "scan join outputDir baseName [] = None"
| "scan join outputDir baseName (entry # rest) =
     (if prefix (baseName @ ''.'') entry then Some (join outputDir entry)
      else scan join outputDir baseName rest)"

text \<open>
  \<open>findProducedFile\<close> on the files \<open>fs\<close>: \<open>Inr None\<close> is the result \<open>null\<close>, and
  \<open>Inl\<close> is the rejection of \<open>fs.readdir\<close>, which the function does not catch.
\<close>

definition findProducedFile :: "World \<Rightarrow> string set \<Rightarrow> string \<Rightarrow> string \<Rightarrow> error + string option" where
  "findProducedFile w fs outputDir baseName =
     (let candidates =
            [baseName @ ''.mp4'', baseName @ ''.mkv'', baseName @ ''.webm'',
             baseName @ ''.mov'', baseName @ ''.m4a'', baseName @ ''.mp3'']
      in case probe fs (path_join w) outputDir candidates of
           Some full \<Rightarrow> Inr (Some full)
         | None \<Rightarrow>
             (case readdir w outputDir of
                Inl e \<Rightarrow> Inl e
              | Inr entries \<Rightarrow> Inr (scan (path_join w) outputDir baseName entries)))"

subsection \<open>Supervision of the child process\<close>

text \<open>
  The variables the handlers of \<open>downloadClip\<close> share: the two buffers, the flag, and the
  signals sent with the time of each.
\<close>

record sup_state =
  stdout_buf :: string
  stderr_buf :: string
  killedByTimeout :: bool
  signals :: "(nat \<times> signal) list"

definition sup_init :: sup_state where
  "sup_init = \<lparr>stdout_buf = [], stderr_buf = [], killedByTimeout = False, signals = []\<rparr>"

definition timeout_marker :: string where
  "timeout_marker = ''Timed out while running yt-dlp''"

text \<open>\<open>Math.max\<close> of two numbers: \<open>NaN\<close> as soon as one of them is \<open>NaN\<close>.\<close>

fun js_max :: "jsnum \<Rightarrow> jsnum \<Rightarrow> jsnum" where
  "js_max NaN y = NaN"
| "js_max x NaN = NaN"
| "js_max PosInfinity y = PosInfinity"
| "js_max x PosInfinity = PosInfinity"
| "js_max NegInfinity y = y"
| "js_max x NegInfinity = x"
| "js_max (Finite a) (Finite b) = Finite (max a b)"

text \<open>
  The delay \<open>setTimeout\<close> of Node.js gives a timer, in milliseconds: a delay that is not a
  number from 1 to \<open>TIMEOUT_MAX\<close> (2147483647, that is \<open>2 ^ 31 - 1\<close>) is set to 1, and
  the fraction of a millisecond is dropped.
\<close>

definition TIMEOUT_MAX :: rat where
  "TIMEOUT_MAX = 2147483647"

definition setTimeout_delay :: "jsnum \<Rightarrow> nat" where
  "setTimeout_delay after =
     (case after of
        Finite r \<Rightarrow> if 1 \<le> r \<and> r \<le> TIMEOUT_MAX then nat \<lfloor>r\<rfloor> else 1
      | _ \<Rightarrow> 1)"

text \<open>
  The delay of the timer of \<open>downloadClip\<close>:
  \<open>setTimeout(..., Math.max(10_000, timeoutMs))\<close> with
  \<open>timeoutMs = opts.timeoutMs ?? 15 * 60 * 1000\<close>.
\<close>

definition timer_delay :: "ClipOptions \<Rightarrow> nat" where
  "timer_delay opts =
     (let timeoutMs = (case timeoutMs opts of None \<Rightarrow> Finite (15 * 60 * 1000) | Some t \<Rightarrow> t)
      in setTimeout_delay (js_max (Finite 10000) timeoutMs))"

text \<open>The callback of the timer, run at time \<open>d\<close>.\<close>

definition on_timeout :: "nat \<Rightarrow> sup_state \<Rightarrow> sup_state" where
  "on_timeout d st = st\<lparr>killedByTimeout := True, signals := signals st @ [(d, SIGKILL)]\<rparr>"

text \<open>The handler of \<open>close\<close>: the marker when the flag is set, then \<open>resolve(code ?? -1)\<close>.\<close>

definition on_close :: "int option \<Rightarrow> sup_state \<Rightarrow> int settled \<times> sup_state" where
  "on_close code st =
     (Resolved (case code of None \<Rightarrow> - 1 | Some c \<Rightarrow> c),
      if killedByTimeout st
      then st\<lparr>stderr_buf := stderr_buf st @ CHR 0x0A # timeout_marker\<rparr>
      else st)"

text \<open>The events after the timer has run: no timer is pending any more.\<close>

fun dispatch :: "proc_event list \<Rightarrow> sup_state \<Rightarrow> int settled \<times> sup_state" where
  "dispatch [] st = (Never, st)"
| "dispatch (StdoutData d # es) st = dispatch es (st\<lparr>stdout_buf := stdout_buf st @ d\<rparr>)"
| "dispatch (StderrData d # es) st = dispatch es (st\<lparr>stderr_buf := stderr_buf st @ d\<rparr>)"
| "dispatch (ErrorEvent m # es) st = (Rejected (Error m), st)"
| "dispatch (CloseEvent code # es) st = on_close code st"

text \<open>
  The promise of the exit code, with the timer set for \<open>d\<close>: the events before \<open>d\<close>
  reach their handlers (error and close clear the timer and settle the promise); at \<open>d\<close>
  the timer runs and the events after the signal follow.
\<close>

fun supervise ::
  "nat \<Rightarrow> proc_event list \<Rightarrow> (nat \<times> proc_event) list \<Rightarrow> sup_state \<Rightarrow> int settled \<times> sup_state" where
  "supervise d ak [] st = dispatch ak (on_timeout d st)"
| "supervise d ak ((t, ev) # evs) st =
     (if d \<le> t then dispatch ak (on_timeout d st)
      else (case ev of
              StdoutData x \<Rightarrow> supervise d ak evs (st\<lparr>stdout_buf := stdout_buf st @ x\<rparr>)
            | StderrData x \<Rightarrow> supervise d ak evs (st\<lparr>stderr_buf := stderr_buf st @ x\<rparr>)
            | ErrorEvent m \<Rightarrow> (Rejected (Error m), st)
            | CloseEvent code \<Rightarrow> on_close code st))"

subsection \<open>\<open>downloadClip\<close>\<close>

record ClipResult =
  outputPath :: string
  stdout :: string
  stderr :: string

text \<open>The comparison \<open>x <= y\<close>: false as soon as one side is \<open>NaN\<close>.\<close>

fun js_le :: "jsnum \<Rightarrow> jsnum \<Rightarrow> bool" where
  "js_le (Finite a) (Finite b) = (a \<le> b)"
| "js_le NaN y = False"
| "js_le x NaN = False"
| "js_le NegInfinity y = True"
| "js_le x PosInfinity = True"
| "js_le PosInfinity y = False"
| "js_le x NegInfinity = False"

text \<open>\<open>String(i)\<close> for an integer.\<close>

definition int_to_string :: "int \<Rightarrow> string" where
  "int_to_string i = (if i < 0 then CHR ''-'' # number_to_string (- i) else number_to_string i)"

definition tmpRoot_of :: "World \<Rightarrow> ClipOptions \<Rightarrow> string" where
  "tmpRoot_of w opts = or_default (outputDirectory opts) (path_join w (tmpdir w) ''aiclips'')"

definition baseName_of :: "World \<Rightarrow> ClipOptions \<Rightarrow> string" where
  "baseName_of w opts = or_default (outputBaseName opts) (''aiclips-'' @ number_to_string (int (now w)))"

definition stem_of :: "World \<Rightarrow> ClipOptions \<Rightarrow> string" where
  "stem_of w opts = path_join w (tmpRoot_of w opts) (baseName_of w opts)"

text \<open>The argument vector of the spawn, with \<open>format: opts.format || "mp4"\<close>.\<close>

definition spawn_args :: "World \<Rightarrow> ClipOptions \<Rightarrow> string list" where
  "spawn_args w opts =
     buildYtDlpArgs (process_env w)
       (opts\<lparr>format := Some (case format opts of None \<Rightarrow> Mp4 | Some f \<Rightarrow> f)\<rparr>)
       (stem_of w opts)"

definition run_of :: "World \<Rightarrow> ClipOptions \<Rightarrow> proc_run" where
  "run_of w opts = spawn w (spawn_args w opts)"

definition supervised :: "World \<Rightarrow> ClipOptions \<Rightarrow> int settled \<times> sup_state" where
  "supervised w opts =
     supervise (timer_delay opts) (after_kill (run_of w opts)) (events (run_of w opts)) sup_init"

text \<open>
  One call of \<open>downloadClip\<close>: how its promise settles, the argument vectors of the
  processes it spawned, the signals it sent, and the files on disk afterwards.
\<close>

record DownloadRun =
  outcome :: "ClipResult settled"
  spawned :: "string list list"
  signals_sent :: "(nat \<times> signal) list"
  files_after :: "string set"

definition downloadClip :: "World \<Rightarrow> ClipOptions \<Rightarrow> DownloadRun" where
  "downloadClip w opts =
     (if js_le (endSeconds opts) (startSeconds opts) then
        \<lparr>outcome = Rejected (Error ''end must be greater than start''),
         spawned = [], signals_sent = [], files_after = files w\<rparr>
      else
        (case mkdir w (tmpRoot_of w opts) of
           Some e \<Rightarrow>
             \<lparr>outcome = Rejected e, spawned = [], signals_sent = [], files_after = files w\<rparr>
         | None \<Rightarrow>
             (let outputPathWithoutExt = stem_of w opts;
                  args = spawn_args w opts;
                  ytProcess = run_of w opts;
                  (exit, st) = supervised w opts;
                  fs = files w \<union> set (writes ytProcess);
                  result =
                    (case exit of
                       Never \<Rightarrow> Never
                     | Rejected err \<Rightarrow> Rejected err
                     | Resolved exitCode \<Rightarrow>
                         if exitCode \<noteq> 0 then
                           (let combined = trim (stdout_buf st @ [CHR 0x0A] @ stderr_buf st)
                            in Rejected (Error (if combined = []
                                 then ''yt-dlp exited with code '' @ int_to_string exitCode
                                 else combined)))
                         else
                           (case findProducedFile w fs (path_dirname w outputPathWithoutExt)
                                   (path_basename w outputPathWithoutExt) of
                              Inl e \<Rightarrow> Rejected e
                            | Inr None \<Rightarrow> Rejected (Error ''Clip produced no output file'')
                            | Inr (Some produced) \<Rightarrow>
                                Resolved \<lparr>outputPath = produced, stdout = stdout_buf st,
                                          stderr = stderr_buf st\<rparr>))
              in \<lparr>outcome = result, spawned = [args], signals_sent = signals st,
                  files_after = fs\<rparr>)))"

text \<open>
  The vocabulary of the statements about \<open>downloadClip\<close>: the paths of the probe, in its
  order, and the files on disk once the process is closed.
\<close>

definition candidate_paths :: "World \<Rightarrow> string \<Rightarrow> string \<Rightarrow> string list" where
  "candidate_paths w dir base =
     map (\<lambda>ext. path_join w dir (base @ ext))
       [''.mp4'', ''.mkv'', ''.webm'', ''.mov'', ''.m4a'', ''.mp3'']"

definition files_closed :: "World \<Rightarrow> ClipOptions \<Rightarrow> string set" where
  "files_closed w opts = files w \<union> set (writes (run_of w opts))"



fun closes_after_kill :: "proc_event list \<Rightarrow> bool" where
  "closes_after_kill [] = False"
| "closes_after_kill (StdoutData x # es) = closes_after_kill es"
| "closes_after_kill (StderrData x # es) = closes_after_kill es"
| "closes_after_kill (ErrorEvent m # es) = False"
| "closes_after_kill (CloseEvent code # es) = True"

fun closes_unsuccessfully :: "proc_event list \<Rightarrow> bool" where
  "closes_unsuccessfully [] = False"
| "closes_unsuccessfully (StdoutData x # es) = closes_unsuccessfully es"
| "closes_unsuccessfully (StderrData x # es) = closes_unsuccessfully es"
| "closes_unsuccessfully (ErrorEvent m # es) = False"
| "closes_unsuccessfully (CloseEvent code # es) = (code \<noteq> Some 0)"

section \<open>Request handler (src/server.ts)\<close>

subsection \<open>Requests and responses\<close>

text \<open>
  A property of a JSON body as the schema sees it: absent, a string, or a value of another
  type. A body is a map from property names to such values; a query string is a map from
  parameter names to optional strings.
\<close>

datatype jv = JUndefined | JString string | JOther

text \<open>The value \<open>ClipRequestSchema.parse\<close> returns.\<close>

record ClipRequest =
  parsed_url :: string
  parsed_start :: string
  parsed_end :: string
  parsed_cookieHeader :: "string option"
  parsed_cookiesTxtBase64 :: "string option"
  parsed_format :: format

text \<open>
  A response is a JSON body with a status, or the stream of a file with its content type
  and the file name of its disposition.
\<close>

datatype response =
    Json nat "(string \<times> string) list"
  | FileStream string string string

text \<open>The events of the response a cleanup handler is registered for.\<close>

datatype res_event = ResClose | ResError | ResFinish

text \<open>
  The platform of the handlers: the world of \<open>downloadClip\<close>; the host name
  \<open>new URL(u).hostname\<close>, or \<open>None\<close> when the constructor throws (the schema's
  \<open>url()\<close> check is that it does not throw); the message of the \<open>ZodError\<close> for a body
  the schema refuses; the two identifiers \<open>nanoid(8)\<close> and \<open>nanoid(6)\<close>; the outcomes of
  \<open>fs.writeFile\<close> and \<open>fs.open\<close>; and the events the response emits once the stream is
  piped into it.
\<close>

record Server =
  world :: World
  url_hostname :: "string \<Rightarrow> string option"
  zod_message :: "(string \<Rightarrow> jv) \<Rightarrow> string"
  nanoid8 :: string
  nanoid6 :: string
  writeFile :: "string \<Rightarrow> error option"
  open_file :: "string \<Rightarrow> error option"
  res_events :: "res_event list"

text \<open>
  One request: the response (\<open>None\<close> when the handler never responds), the argument
  vectors of the processes spawned, and the files in temporary storage when the request is
  over.
\<close>

record HandlerRun =
  response :: "response option"
  spawned_h :: "string list list"
  files_h :: "string set"

subsection \<open>Validation and authorization\<close>

text \<open>An optional \<open>z.string().min(1)\<close>: the value, or \<open>None\<close> for an issue.\<close>

definition optional_min1 :: "jv \<Rightarrow> string option option" where
  "optional_min1 v =
     (case v of
        JUndefined \<Rightarrow> Some None
      | JString s \<Rightarrow> if 1 \<le> length s then Some (Some s) else None
      | JOther \<Rightarrow> None)"

text \<open>\<open>z.enum(["mp4", "webm"]).default("mp4")\<close>\<close>

definition enum_format :: "jv \<Rightarrow> format option" where
  "enum_format v =
     (case v of
        JUndefined \<Rightarrow> Some Mp4
      | JString s \<Rightarrow> if s = ''mp4'' then Some Mp4 else if s = ''webm'' then Some Webm else None
      | JOther \<Rightarrow> None)"

definition schema_parse :: "Server \<Rightarrow> (string \<Rightarrow> jv) \<Rightarrow> error + ClipRequest" where
  "schema_parse srv body =
     (case (body ''url'', body ''start'', body ''end'') of
        (JString u, JString s, JString e) \<Rightarrow>
          (case (url_hostname srv u, optional_min1 (body ''cookieHeader''),
                 optional_min1 (body ''cookiesTxtBase64''), enum_format (body ''format'')) of
             (Some h, Some ch, Some cb, Some f) \<Rightarrow>
               Inr \<lparr>parsed_url = u, parsed_start = s, parsed_end = e, parsed_cookieHeader = ch,
                    parsed_cookiesTxtBase64 = cb, parsed_format = f\<rparr>
           | _ \<Rightarrow> Inl (Error (zod_message srv body)))
      | _ \<Rightarrow> Inl (Error (zod_message srv body)))"

text \<open>\<open>/(^|\.)domain$/.test(h)\<close>: the host is the domain, or ends with a dot and the domain.\<close>

definition host_matches :: "string \<Rightarrow> string \<Rightarrow> bool" where
  "host_matches domain h \<longleftrightarrow> h = domain \<or> suffix (CHR ''.'' # domain) h"

definition isYouTubeUrl :: "Server \<Rightarrow> string \<Rightarrow> bool" where
  "isYouTubeUrl srv u =
     (case url_hostname srv u of
        None \<Rightarrow> False
      | Some hostname \<Rightarrow> host_matches ''youtube.com'' hostname \<or> host_matches ''youtu.be'' hostname)"

subsection \<open>The catch handler\<close>

text \<open>ASCII letters in lower case, for the flag \<open>i\<close> of a pattern of ASCII letters.\<close>

definition ascii_lower :: "char \<Rightarrow> char" where
  "ascii_lower c =
     (if 65 \<le> (of_char c :: nat) \<and> (of_char c :: nat) \<le> 90 then char_of (of_char c + 32 :: nat) else c)"

text \<open>
  The alternatives of the pattern of the catch handler, in lower case; the first has the
  apostrophe U+2019 (its UTF-8 bytes), and the last two are the two readings of \<open>'?\<close>.
\<close>

definition auth_patterns :: "string list" where
  "auth_patterns =
     [''sign in to confirm you'' @ [CHR 0xE2, CHR 0x80, CHR 0x99] @ ''re not a bot'',
      ''use --cookies-from-browser'',
      ''pass cookies to yt-dlp'',
      ''sign in to confirm you'' @ [CHR 0x27] @ ''re not a bot'',
      ''sign in to confirm youre not a bot'']"

definition auth_required :: "string \<Rightarrow> bool" where
  "auth_required message = list_ex (\<lambda>p. sublist p (map ascii_lower message)) auth_patterns"

text \<open>\<open>err.message || String(err)\<close>, then the 401 or the 500 response.\<close>

definition catch_response :: "error \<Rightarrow> response" where
  "catch_response err =
     (let message = (case err of Error m \<Rightarrow> if m = [] then ''Error'' else m)
      in if auth_required message then
           Json 401
             [(''error'', ''YouTube requires authentication. Pass cookieHeader or cookiesTxtBase64.''),
              (''hint'', ''Export cookies.txt or forward your Cookie header for youtube.com''),
              (''docs'', ''https://github.com/yt-dlp/yt-dlp/wiki/FAQ#how-do-i-pass-cookies-to-yt-dlp'')]
         else Json 500 [(''error'', message)])"

subsection \<open>Credential staging\<close>

text \<open>
  \<open>writeTempCookies\<close> in storage \<open>fs\<close>: the path of the file and the storage with it, or the
  rejection of \<open>fs.mkdir\<close> or \<open>fs.writeFile\<close>.
\<close>

definition writeTempCookies :: "Server \<Rightarrow> string set \<Rightarrow> error + (string \<times> string set)" where
  "writeTempCookies srv fs =
     (let w = world srv;
          dir = path_join w (tmpdir w) ''aiclips-cookies''
      in case mkdir w dir of
           Some e \<Rightarrow> Inl e
         | None \<Rightarrow>
             (let file = path_join w dir
                    (''cookies-'' @ number_to_string (int (now w)) @ ''-'' @ nanoid6 srv @ ''.txt'')
              in case writeFile srv file of
                   Some e \<Rightarrow> Inl e
                 | None \<Rightarrow> Inr (file, insert file fs)))"

subsection \<open>The two handlers\<close>

text \<open>
  The cleanup of the POST handler for the paths \<open>outputPath\<close> and \<open>cookiesTxtPath\<close>, on
  storage \<open>fs\<close>: both \<open>fs.unlink\<close> calls swallow their
  errors. The cleanup of the GET handler is the same with no cookie file.
\<close>

definition cleanup :: "string \<Rightarrow> string option \<Rightarrow> string set \<Rightarrow> string set" where
  "cleanup output_p cookies_p fs =
     (let fs1 = fs - {output_p}
      in case cookies_p of
           None \<Rightarrow> fs1
         | Some p \<Rightarrow> if p = [] then fs1 else fs1 - {p})"

text \<open>Each event of the response runs the cleanup handler registered for it.\<close>

definition after_response :: "Server \<Rightarrow> string \<Rightarrow> string option \<Rightarrow> string set \<Rightarrow> string set" where
  "after_response srv output_p cookies_p fs =
     foldl (\<lambda>s ev. cleanup output_p cookies_p s) fs (res_events srv)"

text \<open>
  The part of a handler from the call of \<open>downloadClip\<close> on, in storage \<open>fs\<close>; the content
  type is the only difference between the two handlers there.
\<close>

definition download_and_stream ::
  "Server \<Rightarrow> string set \<Rightarrow> ClipOptions \<Rightarrow> string \<Rightarrow> HandlerRun" where
  "download_and_stream srv fs opts contentType =
     (let w = world srv;
          run = downloadClip (w\<lparr>files := fs\<rparr>) opts
      in case outcome run of
           Never \<Rightarrow>
             \<lparr>response = None, spawned_h = spawned run, files_h = files_after run\<rparr>
         | Rejected err \<Rightarrow>
             \<lparr>response = Some (catch_response err), spawned_h = spawned run,
              files_h = files_after run\<rparr>
         | Resolved result \<Rightarrow>
             (let fileName = path_basename w (outputPath result)
              in case open_file srv (outputPath result) of
                   Some err \<Rightarrow>
                     \<lparr>response = Some (catch_response err), spawned_h = spawned run,
                      files_h = files_after run\<rparr>
                 | None \<Rightarrow>
                     \<lparr>response = Some (FileStream contentType fileName (outputPath result)),
                      spawned_h = spawned run,
                      files_h = after_response srv (outputPath result) (cookiesTxtPath opts)
                                  (files_after run)\<rparr>))"

text \<open>A response sent before anything is staged or spawned.\<close>

definition early :: "Server \<Rightarrow> response \<Rightarrow> HandlerRun" where
  "early srv r = \<lparr>response = Some r, spawned_h = [], files_h = files (world srv)\<rparr>"

definition clip_options ::
  "Server \<Rightarrow> string \<Rightarrow> jsnum \<Rightarrow> jsnum \<Rightarrow> string option \<Rightarrow> string option \<Rightarrow> format \<Rightarrow> ClipOptions" where
  "clip_options srv u startSeconds_v endSeconds_v cookieHeader_v cookiesTxtPath_v format_v =
     \<lparr>url = u, startSeconds = startSeconds_v, endSeconds = endSeconds_v,
      outputDirectory = Some (path_join (world srv) (tmpdir (world srv)) ''aiclips''),
      outputBaseName = Some (''aiclips-'' @ nanoid8 srv),
      cookieHeader = cookieHeader_v, cookiesTxtPath = cookiesTxtPath_v,
      format = Some format_v, userAgent = None, timeoutMs = None\<rparr>"

text \<open>
  The staging step of the POST handler: the value of \<open>cookiesTxtPath\<close> and the storage
  after it; the cookie file is written when the payload is present.
\<close>

definition staging :: "Server \<Rightarrow> ClipRequest \<Rightarrow> error + (string option \<times> string set)" where
  "staging srv parsed =
     (if truthy (parsed_cookiesTxtBase64 parsed)
      then map_sum id (\<lambda>(p, fs). (Some p, fs)) (writeTempCookies srv (files (world srv)))
      else Inr (None, files (world srv)))"

text \<open>\<open>app.post("/api/clip", ...)\<close>\<close>

definition post_clip :: "Server \<Rightarrow> (string \<Rightarrow> jv) \<Rightarrow> HandlerRun" where
  "post_clip srv body =
     (case schema_parse srv body of
        Inl err \<Rightarrow> early srv (catch_response err)
      | Inr parsed \<Rightarrow>
          if \<not> isYouTubeUrl srv (parsed_url parsed) then
            early srv (Json 400 [(''error'', ''Only YouTube URLs are supported'')])
          else
            (case parseTimeToSeconds (parsed_start parsed) of
               Inl err \<Rightarrow> early srv (catch_response err)
             | Inr startSeconds_v \<Rightarrow>
                 (case parseTimeToSeconds (parsed_end parsed) of
                    Inl err \<Rightarrow> early srv (catch_response err)
                  | Inr endSeconds_v \<Rightarrow>
                      (case staging srv parsed of
                         Inl err \<Rightarrow> early srv (catch_response err)
                       | Inr (cookiesTxtPath_v, fs) \<Rightarrow>
                           download_and_stream srv fs
                             (clip_options srv (parsed_url parsed) startSeconds_v endSeconds_v
                                (parsed_cookieHeader parsed) cookiesTxtPath_v (parsed_format parsed))
                             (if parsed_format parsed = Webm then ''video/webm'' else ''video/mp4'')))))"

text \<open>
  \<open>app.get("/api/clip", ...)\<close>: the three strings of the query (\<open>String(q || "")\<close>), the
  schema restricted to them, and no cookie file.
\<close>

definition query_string :: "(string \<Rightarrow> string option) \<Rightarrow> string \<Rightarrow> string" where
  "query_string query name = (case query name of None \<Rightarrow> [] | Some v \<Rightarrow> v)"

definition get_clip :: "Server \<Rightarrow> (string \<Rightarrow> string option) \<Rightarrow> HandlerRun" where
  "get_clip srv query =
     (let u = query_string query ''url'';
          start = query_string query ''start'';
          end_v = query_string query ''end'';
          cookieHeader_v = (if truthy (query ''cookieHeader'') then query ''cookieHeader'' else None)
      in case url_hostname srv u of
           None \<Rightarrow>
             early srv (catch_response (Error (zod_message srv
               (\<lambda>k. if k = ''url'' then JString u else if k = ''start'' then JString start
                    else if k = ''end'' then JString end_v else JUndefined))))
         | Some h \<Rightarrow>
             if \<not> isYouTubeUrl srv u then
               early srv (Json 400 [(''error'', ''Only YouTube URLs are supported'')])
             else
               (case parseTimeToSeconds start of
                  Inl err \<Rightarrow> early srv (catch_response err)
                | Inr startSeconds_v \<Rightarrow>
                    (case parseTimeToSeconds end_v of
                       Inl err \<Rightarrow> early srv (catch_response err)
                     | Inr endSeconds_v \<Rightarrow>
                         download_and_stream srv (files (world srv))
                           (clip_options srv u startSeconds_v endSeconds_v cookieHeader_v None Mp4)
                           ''video/mp4'')))"

text \<open>
  The vocabulary of the statements about the handlers: a host name on the allow-list (one
  of the two domains or a subdomain of one), and the paths a cleanup removes.
\<close>

definition allow_listed :: "string \<Rightarrow> bool" where
  "allow_listed h \<longleftrightarrow>
     h = ''youtube.com'' \<or> h = ''youtu.be'' \<or> suffix ''.youtube.com'' h \<or> suffix ''.youtu.be'' h"

definition removed_paths :: "string \<Rightarrow> string option \<Rightarrow> string set" where
  "removed_paths output_p cookies_p =
     insert output_p (case cookies_p of None \<Rightarrow> {} | Some p \<Rightarrow> if p = [] then {} else {p})"

section \<open>A platform for the examples\<close>

text \<open>
  The path functions on plain POSIX paths (no empty, \<open>.\<close> or \<open>..\<close> segment, no slash at
  the end), where \<open>path.join\<close> puts a slash between its arguments, \<open>path.basename\<close> is
  the text after the last slash and \<open>path.dirname\<close> the text before it.
\<close>

definition plain_join :: "string \<Rightarrow> string \<Rightarrow> string" where
  "plain_join a b = a @ CHR ''/'' # b"

definition plain_basename :: "string \<Rightarrow> string" where
  "plain_basename p = rev (takeWhile (\<lambda>c. c \<noteq> CHR ''/'') (rev p))"

definition plain_dirname :: "string \<Rightarrow> string" where
  "plain_dirname p = rev (drop 1 (dropWhile (\<lambda>c. c \<noteq> CHR ''/'') (rev p)))"

definition no_env :: Env where
  "no_env = \<lparr>YOUTUBE_USER_AGENT = None, YOUTUBE_COOKIE_HEADER = None, YT_COOKIES_FILE = None\<rparr>"

text \<open>
  A world whose tool behaves as \<open>run\<close> whatever its arguments, with an empty temporary
  storage and directories that list as empty.
\<close>

definition world_with :: "proc_run \<Rightarrow> World" where
  "world_with run =
     \<lparr>process_env = no_env, tmpdir = ''/tmp'', now = 1700000000000,
      path_join = plain_join, path_dirname = plain_dirname, path_basename = plain_basename,
      mkdir = (\<lambda>d. None), spawn = (\<lambda>args. run), files = {}, readdir = (\<lambda>d. Inr [])\<rparr>"

definition clip_opts :: "jsnum option \<Rightarrow> ClipOptions" where
  "clip_opts t =
     \<lparr>url = ''https://youtu.be/x'', startSeconds = Finite 1, endSeconds = Finite 5,
      outputDirectory = None, outputBaseName = Some ''clip'', cookieHeader = None,
      cookiesTxtPath = None, format = None, userAgent = None, timeoutMs = t\<rparr>"

text \<open>A tool that prints a line, writes \<open>clip.mkv\<close> and exits with code 0 after four seconds.\<close>

definition mkv_run :: proc_run where
  "mkv_run =
     \<lparr>events = [(1200, StdoutData ''done''), (4000, CloseEvent (Some 0))],
      after_kill = [CloseEvent None],
      writes = [''/tmp/aiclips/clip.mkv'']\<rparr>"



text \<open>
  A server on the example world that knows the host names of two URLs; writing and opening
  files succeed, and the response finishes and closes.
\<close>

definition example_hostname :: "string \<Rightarrow> string option" where
  "example_hostname u =
     (if u = ''https://www.youtube.com/watch?v=abc'' then Some ''www.youtube.com''
      else if u = ''https://example.com/v'' then Some ''example.com''
      else None)"

definition server_with :: "proc_run \<Rightarrow> Server" where
  "server_with run =
     \<lparr>world = world_with run, url_hostname = example_hostname,
      zod_message = (\<lambda>body. ''Required''), nanoid8 = ''V1StGXR8'', nanoid6 = ''Z5aQ3b'',
      writeFile = (\<lambda>p. None), open_file = (\<lambda>p. None), res_events = [ResFinish, ResClose]\<rparr>"

definition json_body :: "(string \<times> string) list \<Rightarrow> string \<Rightarrow> jv" where
  "json_body props k = (case map_of props k of None \<Rightarrow> JUndefined | Some v \<Rightarrow> JString v)"

text \<open>A tool that writes the clip of the example server as an mp4 file and exits with code 0.\<close>

definition mp4_run :: proc_run where
  "mp4_run =
     \<lparr>events = [(4000, CloseEvent (Some 0))], after_kill = [CloseEvent None],
      writes = [''/tmp/aiclips/aiclips-V1StGXR8.mp4'']\<rparr>"

text \<open>A tool that fails with the sign-in message of the source site.\<close>

definition sign_in_message :: string where
  "sign_in_message = ''ERROR: Sign in to confirm you'' @ [CHR 0x27] @ ''re not a bot''"

definition sign_in_run :: proc_run where
  "sign_in_run =
     \<lparr>events = [(900, StderrData sign_in_message), (1000, CloseEvent (Some 1))],
      after_kill = [CloseEvent None], writes = []\<rparr>"

text \<open>A POST body for a video of the source site with a cookie-jar payload.\<close>

definition cookie_body :: "string \<Rightarrow> string \<Rightarrow> string \<Rightarrow> jv" where
  "cookie_body start_v end_v =
     json_body [(''url'', ''https://www.youtube.com/watch?v=abc''), (''start'', start_v),
                (''end'', end_v), (''cookiesTxtBase64'', ''Y29va2ll'')]"

definition cookie_file :: string where
  "cookie_file = ''/tmp/aiclips-cookies/cookies-1700000000000-Z5aQ3b.txt''"
section \<open>Properties of the rounding to a double\<close>

text \<open>
  The exponent \<open>floorlog2\<close> is the binary exponent of its argument; rounding keeps a
  whole number below \<open>2 ^ 53\<close>, keeps the sign, gives an infinity from \<open>2 ^ 1024\<close> and
  0 below \<open>2 ^ -1075\<close>; and the floor of a rounded quotient of whole numbers is the
  integer quotient, for a divisor below 4096 and a quotient below \<open>2 ^ 42\<close>.
\<close>

lemma bit_length_nonneg: "0 \<le> bit_length n"
proof (induction n rule: bit_length.induct)
  case (1 n)
  then show ?case by (subst bit_length.simps) simp
qed

lemma bit_length_pos: "0 < n \<Longrightarrow> 1 \<le> bit_length n"
  using bit_length_nonneg[of "n div 2"] by (subst bit_length.simps) simp

lemma bit_length_bounds:
  "0 < n \<Longrightarrow> 2 ^ nat (bit_length n - 1) \<le> n \<and> n < 2 ^ nat (bit_length n)"
proof (induction n rule: bit_length.induct)
  case (1 n)
  show ?case
  proof (cases "n = 1")
    case True
    then show ?thesis by (simp add: bit_length.simps)
  next
    case False
    with 1 have h: "0 < n div 2" by simp
    from 1 h have ih: "2 ^ nat (bit_length (n div 2) - 1) \<le> n div 2"
      "n div 2 < 2 ^ nat (bit_length (n div 2))" by simp_all
    have bl: "bit_length n = 1 + bit_length (n div 2)" using 1 by (subst bit_length.simps) simp
    have p: "1 \<le> bit_length (n div 2)" using h by (rule bit_length_pos)
    have e1: "nat (bit_length n - 1) = Suc (nat (bit_length (n div 2) - 1))" using bl p by simp
    have e2: "nat (bit_length n) = Suc (nat (bit_length (n div 2)))" using bl p by simp
    have "2 * (n div 2) \<le> n" "n < 2 * (n div 2 + 1)" by simp_all
    with ih show ?thesis unfolding e1 e2 by simp
  qed
qed

lemma pow2_pos: "0 < pow2 e"
  by (simp add: pow2_def)

lemma pow2_powi: "pow2 e = 2 powi e"
  by (simp add: pow2_def power_int_def field_simps)

lemma pow2_nonneg_exp: "0 \<le> e \<Longrightarrow> pow2 e = 2 ^ nat e"
  by (simp add: pow2_def)

lemma pow2_neg_exp: "e < 0 \<Longrightarrow> pow2 e = 1 / 2 ^ nat (- e)"
  by (simp add: pow2_def)

lemma pow2_add: "pow2 (a + b) = pow2 a * pow2 b"
  by (simp add: pow2_powi power_int_add)

lemma pow2_mono: "a \<le> b \<Longrightarrow> pow2 a \<le> pow2 b"
  by (simp add: pow2_powi power_int_increasing)

lemma pow2_less_iff: "pow2 a < pow2 b \<longleftrightarrow> a < b"
proof
  assume l: "pow2 a < pow2 b"
  show "a < b"
  proof (rule ccontr)
    assume "\<not> a < b"
    then have "b \<le> a" by simp
    from pow2_mono[OF this] l show False by simp
  qed
next
  assume "a < b"
  then show "pow2 a < pow2 b" by (simp add: pow2_powi power_int_strict_increasing)
qed

lemma pow2_nat: "pow2 (int k) = 2 ^ k"
  by (simp add: pow2_def)

lemma pow2_neg: "pow2 (- e) = 1 / pow2 e"
  by (simp add: pow2_powi power_int_minus field_simps)

lemma floorlog2_bounds:
  assumes "0 < a"
  shows "pow2 (floorlog2 a) \<le> a \<and> a < pow2 (floorlog2 a + 1)"
proof (cases "1 \<le> a")
  case True
  let ?n = "\<lfloor>a\<rfloor>" and ?L = "bit_length \<lfloor>a\<rfloor>"
  have n: "0 < ?n" using True by simp
  note bb = bit_length_bounds[OF n] and lp = bit_length_pos[OF n]
  have fl: "floorlog2 a = ?L - 1" using True by (simp add: floorlog2_def)
  have p1: "pow2 (?L - 1) = 2 ^ nat (?L - 1)" using lp by (simp add: pow2_nonneg_exp)
  have p2: "pow2 ?L = 2 ^ nat ?L" using lp by (simp add: pow2_nonneg_exp)
  have "(2::rat) ^ nat (?L - 1) = of_int (2 ^ nat (?L - 1))" by simp
  also have "\<dots> \<le> of_int ?n" using bb by (simp only: of_int_le_iff)
  also have "\<dots> \<le> a" by (rule of_int_floor_le)
  finally have lo: "pow2 (?L - 1) \<le> a" by (simp only: p1)
  have "?n + 1 \<le> 2 ^ nat ?L" using bb by simp
  then have "(of_int (?n + 1) :: rat) \<le> of_int (2 ^ nat ?L)" by (simp only: of_int_le_iff)
  then have "(of_int (?n + 1) :: rat) \<le> 2 ^ nat ?L" by (simp only: of_int_power of_int_numeral)
  moreover have "a < of_int (?n + 1)" by linarith
  ultimately have "a < 2 ^ nat ?L" by linarith
  then have hi: "a < pow2 ?L" by (simp only: p2)
  from lo hi show ?thesis by (simp add: fl)
next
  case False
  let ?c = "\<lceil>1 / a\<rceil>" and ?L = "bit_length (\<lceil>1 / a\<rceil> - 1)"
  have b1: "1 < 1 / a" using False assms by simp
  then have c: "0 < ?c - 1" by linarith
  note bb = bit_length_bounds[OF c] and lp = bit_length_pos[OF c]
  have fl: "floorlog2 a = - ?L" using False by (simp add: floorlog2_def)
  have p1: "pow2 (- ?L) = 1 / 2 ^ nat ?L" using lp by (simp add: pow2_neg_exp)
  have p2: "pow2 (1 - ?L) = 1 / 2 ^ nat (?L - 1)"
    using lp by (cases "?L = 1") (simp_all add: pow2_def nat_diff_distrib)
  have "?c \<le> 2 ^ nat ?L" using bb by simp
  then have "(of_int ?c :: rat) \<le> of_int (2 ^ nat ?L)" by (simp only: of_int_le_iff)
  then have "(of_int ?c :: rat) \<le> 2 ^ nat ?L" by (simp only: of_int_power of_int_numeral)
  moreover have "1 / a \<le> of_int ?c" by (rule le_of_int_ceiling)
  ultimately have "1 / a \<le> 2 ^ nat ?L" by linarith
  then have lo: "pow2 (- ?L) \<le> a" using assms by (simp add: p1 field_simps)
  have "(of_int (2 ^ nat (?L - 1)) :: rat) \<le> of_int (?c - 1)" using bb by (simp only: of_int_le_iff)
  then have "(2 ^ nat (?L - 1) :: rat) \<le> of_int (?c - 1)" by (simp only: of_int_power of_int_numeral)
  moreover have "(of_int (?c - 1) :: rat) < 1 / a" by linarith
  ultimately have "2 ^ nat (?L - 1) < 1 / a" by linarith
  then have hi: "a < pow2 (1 - ?L)" using assms by (simp add: p2 field_simps)
  from lo hi show ?thesis by (simp add: fl)
qed

lemma round_half_even_int: "round_half_even (of_int k) = k"
  by (simp add: round_half_even_def)

lemma round_half_even_near:
  "of_int (round_half_even y) \<le> y + 1 / 2 \<and> y - 1 / 2 \<le> of_int (round_half_even y)"
proof -
  have "of_int \<lfloor>y\<rfloor> \<le> y" "y < of_int \<lfloor>y\<rfloor> + 1" by linarith+
  then show ?thesis
    unfolding round_half_even_def Let_def by (simp; linarith)
qed

lemma floorlog2_less: "0 < a \<Longrightarrow> a < pow2 g \<Longrightarrow> floorlog2 a < g"
proof -
  assume a: "0 < a" and b: "a < pow2 g"
  from floorlog2_bounds[OF a] b have "pow2 (floorlog2 a) < pow2 g" by linarith
  then show ?thesis by (simp add: pow2_less_iff)
qed

lemma floorlog2_ge: "0 < a \<Longrightarrow> pow2 g \<le> a \<Longrightarrow> g \<le> floorlog2 a"
proof -
  assume a: "0 < a" and b: "pow2 g \<le> a"
  from floorlog2_bounds[OF a] b have "pow2 g < pow2 (floorlog2 a + 1)" by linarith
  then show ?thesis by (simp add: pow2_less_iff)
qed

lemma round_pos_binade:
  assumes "- 1022 \<le> floorlog2 a"
  shows "round_pos a =
    of_int (round_half_even (a / pow2 (floorlog2 a - 52))) * pow2 (floorlog2 a - 52)"
  using assms by (simp add: round_pos_def Let_def max_def)

lemma pow2_ulp: "e \<le> 52 \<Longrightarrow> pow2 (e - 52) = 1 / 2 ^ nat (52 - e)"
  by (cases "e = 52") (simp_all add: pow2_def)

lemma floorlog2_int:
  assumes "0 < k" "k < 2 ^ 53"
  shows "0 \<le> floorlog2 (of_int k)" "floorlog2 (of_int k) \<le> 52"
proof -
  have a: "(0::rat) < of_int k" using assms by simp
  have "pow2 0 \<le> of_int k" using assms by (simp add: pow2_def)
  from floorlog2_ge[OF a this] show "0 \<le> floorlog2 (of_int k)" .
  have "(of_int k :: rat) < of_int (2 ^ 53)" using assms(2) by (simp only: of_int_less_iff)
  then have "of_int k < pow2 53" by (simp add: pow2_def)
  from floorlog2_less[OF a this] show "floorlog2 (of_int k) \<le> 52" by simp
qed

lemma round_pos_int:
  assumes "0 < k" "k < 2 ^ 53"
  shows "round_pos (of_int k) = of_int k"
proof -
  let ?e = "floorlog2 (of_int k)"
  note e = floorlog2_int[OF assms]
  define j where "j = nat (52 - ?e)"
  have ulp: "pow2 (?e - 52) = 1 / 2 ^ j" unfolding j_def using e(2) by (rule pow2_ulp)
  have "of_int k / pow2 (?e - 52) = (of_int (k * 2 ^ j) :: rat)" by (simp add: ulp)
  then have "round_half_even (of_int k / pow2 (?e - 52)) = k * 2 ^ j"
    by (simp only: round_half_even_int)
  moreover have "- 1022 \<le> ?e" using e(1) by simp
  ultimately show ?thesis by (simp add: round_pos_binade ulp)
qed

lemma round_double_int:
  assumes "\<bar>k\<bar> < 2 ^ 53"
  shows "round_double (of_int k) = Finite (of_int k)"
proof (cases "k = 0")
  case True
  then show ?thesis by (simp add: round_double_def)
next
  case False
  then have p: "0 < \<bar>k\<bar>" by simp
  have ab: "\<bar>of_int k :: rat\<bar> = of_int \<bar>k\<bar>" by simp
  have e: "floorlog2 \<bar>of_int k :: rat\<bar> < 1023"
    unfolding ab using floorlog2_int(2)[OF p assms] by simp
  have "double_value (of_int k) = of_int k"
  proof (cases "0 < k")
    case True
    with assms show ?thesis by (simp add: double_value_def round_pos_int)
  next
    case neg: False
    with False have "0 < - k" "- k < 2 ^ 53" using assms by simp_all
    from round_pos_int[OF this] neg False show ?thesis by (simp add: double_value_def)
  qed
  with e False show ?thesis by (simp add: round_double_def)
qed

lemma floor_double_value_div:
  assumes n: "0 \<le> n" and d: "0 < d" "d < 4096" and b: "n < d * 2 ^ 42"
  shows "\<lfloor>double_value (of_int n / of_int d)\<rfloor> = n div d"
proof (cases "n = 0")
  case True
  then show ?thesis by (simp add: double_value_def)
next
  case False
  with n have np: "0 < n" by simp
  let ?x = "of_int n / of_int d :: rat"
  let ?e = "floorlog2 ?x"
  have x: "0 < ?x" using np d by simp
  have "?x < of_int (2 ^ 42)"
  proof -
    have "(of_int n :: rat) < of_int (d * 2 ^ 42)" using b by (simp only: of_int_less_iff)
    then show ?thesis using d by (simp add: field_simps)
  qed
  then have "?x < pow2 42" by (simp add: pow2_def)
  from floorlog2_less[OF x this] have e41: "?e \<le> 41" by simp
  have "1 / 4096 \<le> ?x"
  proof -
    have "(of_int d :: rat) \<le> of_int (4096 * n)" using d np by simp
    then show ?thesis using d by (simp add: field_simps)
  qed
  then have "pow2 (- 12) \<le> ?x" by (simp add: pow2_def)
  from floorlog2_ge[OF x this] have e12: "- 12 \<le> ?e" .
  define j where "j = nat (52 - ?e)"
  define U :: int where "U = 2 ^ j"
  have j11: "11 \<le> j" unfolding j_def using e41 by simp
  have "(2::int) ^ 11 \<le> 2 ^ j" using j11 by (intro power_increasing) simp_all
  then have U: "2048 \<le> U" by (simp add: U_def)
  have ulp: "pow2 (?e - 52) = 1 / of_int U"
    unfolding U_def j_def using pow2_ulp[of ?e] e41 by simp
  define R where "R = round_half_even (?x * of_int U)"
  have rp: "round_pos ?x = of_int R / of_int U"
    using round_pos_binade[of ?x] e12 by (simp add: ulp R_def)
  have xn: "?x \<noteq> 0" using np d by simp
  have dv: "double_value ?x = of_int R / of_int U"
    unfolding double_value_def using x xn rp by (simp only: if_True if_False)
  note near = round_half_even_near[of "?x * of_int U", folded R_def]
  have dq: "(0::rat) < of_int d" using d by simp
  have up: "(of_int (2 * R * d) :: rat) \<le> of_int (2 * n * U + d)"
    using near dq by (simp add: field_simps)
  have lo: "(of_int (2 * n * U - d) :: rat) \<le> of_int (2 * R * d)"
    using near dq by (simp add: field_simps)
  from up have up': "2 * R * d \<le> 2 * n * U + d" by (simp only: of_int_le_iff)
  from lo have lo': "2 * n * U - d \<le> 2 * R * d" by (simp only: of_int_le_iff)
  define k where "k = n div d"
  define r where "r = n mod d"
  have nk: "n = k * d + r" by (simp add: k_def r_def)
  have r: "0 \<le> r" "r < d" using d by (simp_all add: r_def)
  have Up: "0 < U" using U by simp
  have l1: "k * U \<le> R"
  proof (rule ccontr)
    assume "\<not> k * U \<le> R"
    then have "R + 1 \<le> k * U" by simp
    then have "(R + 1) * d \<le> k * U * d" using d by (intro mult_right_mono) simp_all
    moreover have "0 \<le> r * U" using r Up by simp
    ultimately have "2 * R * d + 2 * d \<le> 2 * n * U" unfolding nk by (simp add: algebra_simps)
    with lo' d show False by simp
  qed
  have l2: "R < (k + 1) * U"
  proof (rule ccontr)
    assume "\<not> R < (k + 1) * U"
    then have "(k + 1) * U \<le> R" by simp
    then have "(k + 1) * U * d \<le> R * d" using d by (intro mult_right_mono) simp_all
    moreover have "(r + 1) * U \<le> d * U" using r Up by (intro mult_right_mono) simp_all
    ultimately have "2 * n * U + 2 * U \<le> 2 * R * d" unfolding nk by (simp add: algebra_simps)
    with up' U d show False by simp
  qed
  have uq: "(0::rat) < of_int U" using Up by simp
  have "(of_int (k * U) :: rat) \<le> of_int R" using l1 by (simp only: of_int_le_iff)
  then have f1: "of_int k \<le> (of_int R / of_int U :: rat)" using uq by (simp add: field_simps)
  have "(of_int R :: rat) < of_int ((k + 1) * U)" using l2 by (simp only: of_int_less_iff)
  then have f2: "(of_int R / of_int U :: rat) < of_int k + 1" using uq by (simp add: field_simps)
  from f1 f2 have "\<lfloor>of_int R / of_int U :: rat\<rfloor> = k" by (rule floor_unique)
  then show ?thesis by (simp add: dv k_def)
qed

lemma round_half_even_nonneg: "0 \<le> y \<Longrightarrow> 0 \<le> round_half_even y"
proof -
  assume "0 \<le> y"
  with round_half_even_near[of y] have "(- 1 :: rat) < of_int (round_half_even y)" by linarith
  then have "- 1 < round_half_even y" by (metis of_int_less_iff of_int_minus of_int_1)
  then show ?thesis by simp
qed

lemma round_pos_nonneg: "0 < a \<Longrightarrow> 0 \<le> round_pos a"
  unfolding round_pos_def Let_def
  by (intro mult_nonneg_nonneg) (simp_all add: round_half_even_nonneg pow2_pos less_imp_le)

lemma double_value_nonneg: "0 \<le> r \<Longrightarrow> 0 \<le> double_value r"
  by (simp add: double_value_def round_pos_nonneg)

lemma round_double_nonneg: "0 \<le> r \<Longrightarrow> js_nonneg (round_double r)"
  by (simp add: round_double_def double_value_nonneg)

lemma round_double_overflow:
  assumes "pow2 1024 \<le> a"
  shows "round_double a = PosInfinity"
proof -
  let ?e = "floorlog2 a"
  have a: "0 < a" using assms pow2_pos[of 1024] by linarith
  from floorlog2_ge[OF a assms] have e: "1024 \<le> ?e" .
  define u where "u = pow2 (?e - 52)"
  define R where "R = round_half_even (a / u)"
  have u: "0 < u" unfolding u_def by (rule pow2_pos)
  have p52: "pow2 52 = of_int (2 ^ 52)" by (simp add: pow2_def)
  have pe: "pow2 ?e = pow2 52 * u" unfolding u_def using pow2_add[of 52 "?e - 52"] by simp
  have "pow2 ?e \<le> a" using floorlog2_bounds[OF a] by simp
  then have "pow2 52 \<le> a / u" using u by (simp add: pe field_simps)
  with round_half_even_near[of "a / u"] have "pow2 52 - 1 / 2 \<le> of_int R"
    unfolding R_def by linarith
  then have "(of_int (2 ^ 52 - 1) :: rat) < of_int R" unfolding p52 by simp
  then have "2 ^ 52 - 1 < R" by (simp only: of_int_less_iff)
  then have "2 ^ 52 \<le> R" by simp
  then have "(of_int (2 ^ 52) :: rat) \<le> of_int R" by (simp only: of_int_le_iff)
  then have "pow2 52 * u \<le> of_int R * u" unfolding p52 using u by (intro mult_right_mono) simp_all
  moreover have "round_pos a = of_int R * u"
    unfolding R_def u_def using e by (simp add: round_pos_binade)
  moreover have "pow2 1024 \<le> pow2 ?e" using e by (rule pow2_mono)
  ultimately have "pow2 1024 \<le> round_pos a" using pe by simp
  then show ?thesis using a e by (simp add: round_double_def)
qed

lemma round_double_underflow:
  assumes "0 < a" "a < pow2 (- 1075)"
  shows "round_double a = Finite 0"
proof -
  have e: "floorlog2 a < - 1075" using assms by (rule floorlog2_less)
  define y where "y = a / pow2 (- 1074)"
  have "pow2 (- 1074) = pow2 1 * pow2 (- 1075)" using pow2_add[of 1 "- 1075"] by simp
  then have "pow2 (- 1074) = 2 * pow2 (- 1075)" by (simp add: pow2_def[of 1])
  with assms(2) pow2_pos[of "- 1075"] have y1: "y < 1 / 2" unfolding y_def by (simp add: field_simps)
  have y0: "0 \<le> y" unfolding y_def using assms(1) pow2_pos[of "- 1074"] by simp
  have fl: "\<lfloor>y\<rfloor> = 0" using y0 y1 by (intro floor_unique) simp_all
  have "round_half_even y = 0" using y1 by (simp add: round_half_even_def Let_def fl)
  then have "round_pos a = 0" using e by (simp add: round_pos_def Let_def max_def y_def)
  then show ?thesis using assms(1) e by (simp add: round_double_def double_value_def)
qed

section \<open>Properties of the time parser\<close>

subsection \<open>White space, digits and the regular expressions\<close>

lemma strip_tokens_none: "tok_len toks s = 0 \<Longrightarrow> strip_tokens toks s = s"
  by (subst strip_tokens.simps) simp

lemma find_prefix_head:
  "\<forall>w \<in> set toks. w \<noteq> [] \<and> hd w \<noteq> c \<Longrightarrow> find (\<lambda>w. prefix w (c # cs)) toks = None"
  by (induction toks) (auto simp: prefix_Cons)

lemma printable_heads: "printable c \<Longrightarrow> \<forall>w \<in> set ws_tokens. w \<noteq> [] \<and> hd w \<noteq> c"
  unfolding ws_tokens_def printable_def by auto

lemma printable_lasts: "printable c \<Longrightarrow> \<forall>w \<in> set (map rev ws_tokens). w \<noteq> [] \<and> hd w \<noteq> c"
  unfolding ws_tokens_def printable_def by auto

lemma trimStart_printable: "printable c \<Longrightarrow> trimStart (c # cs) = c # cs"
  by (simp add: trimStart_def strip_tokens_none tok_len_def find_prefix_head printable_heads)

lemma trimEnd_printable: "printable c \<Longrightarrow> trimEnd (cs @ [c]) = cs @ [c]"
  by (simp add: trimEnd_def strip_tokens_none tok_len_def find_prefix_head printable_lasts)

lemma trim_printable:
  assumes "s \<noteq> []" "printable (hd s)" "printable (last s)"
  shows "trim s = s"
proof -
  from assms obtain c cs where s: "s = c # cs" by (cases s) auto
  from assms obtain d ds where s': "s = ds @ [d]" by (cases s rule: rev_cases) auto
  have "trimStart s = s" using assms s by (simp add: trimStart_printable)
  moreover have "trimEnd s = s" using assms s' by (simp add: trimEnd_printable)
  ultimately show ?thesis by (simp add: trim_def)
qed

lemma is_digit_printable: "is_digit c \<Longrightarrow> printable c"
  by (simp add: is_digit_def printable_def)

lemma not_digit_chars [simp]:
  "\<not> is_digit CHR ''.''" "\<not> is_digit CHR '':''" "\<not> is_digit CHR ''-''" "\<not> is_digit CHR ''+''"
  "\<not> is_digit CHR ''h''" "\<not> is_digit CHR ''H''" "\<not> is_digit CHR ''m''" "\<not> is_digit CHR ''M''"
  "\<not> is_digit CHR ''s''" "\<not> is_digit CHR ''S''" "\<not> is_digit CHR ''I''"
  by (simp_all add: is_digit_def)

lemma takeWhile_digits_then:
  "list_all is_digit ds \<Longrightarrow> \<not> is_digit c \<Longrightarrow> takeWhile is_digit (ds @ c # r) = ds"
  by (induction ds) auto

lemma dropWhile_digits_then:
  "list_all is_digit ds \<Longrightarrow> \<not> is_digit c \<Longrightarrow> dropWhile is_digit (ds @ c # r) = c # r"
  by (induction ds) auto

lemma takeWhile_digits_all: "list_all is_digit ds \<Longrightarrow> takeWhile is_digit ds = ds"
  by (induction ds) auto

lemma dropWhile_digits_all: "list_all is_digit ds \<Longrightarrow> dropWhile is_digit ds = []"
  by (induction ds) auto

lemma match_decimal_text:
  assumes "ip \<noteq> []" "list_all is_digit ip" "list_all is_digit fp"
    and "r = [] \<or> (\<not> is_digit (hd r) \<and> hd r \<noteq> CHR ''.'')"
  shows "match_decimal (decimal_text ip fp @ r) = Some (decimal_text ip fp, r)"
proof (cases "fp = []")
  case True
  show ?thesis
  proof (cases r)
    case Nil
    with True assms show ?thesis
      by (simp add: match_decimal_def decimal_text_def takeWhile_digits_all dropWhile_digits_all)
  next
    case (Cons c r')
    with True assms show ?thesis
      by (simp add: match_decimal_def decimal_text_def takeWhile_digits_then dropWhile_digits_then)
  qed
next
  case False
  have tw: "takeWhile is_digit (ip @ CHR ''.'' # fp @ r) = ip"
    using assms by (simp add: takeWhile_digits_then)
  have dw: "dropWhile is_digit (ip @ CHR ''.'' # fp @ r) = CHR ''.'' # fp @ r"
    using assms by (simp add: dropWhile_digits_then)
  have tf: "takeWhile is_digit (fp @ r) = fp" "dropWhile is_digit (fp @ r) = r"
    using assms by (cases r; simp add: takeWhile_digits_then dropWhile_digits_then
        takeWhile_digits_all dropWhile_digits_all)+
  show ?thesis
    using False assms(1) by (simp add: match_decimal_def decimal_text_def tw dw tf)
qed

lemma match_decimal_none: "takeWhile is_digit s = [] \<Longrightarrow> match_decimal s = None"
  unfolding match_decimal_def Let_def by simp

lemma match_decimal_dot:
  assumes "takeWhile is_digit s \<noteq> []" "dropWhile is_digit s = CHR ''.'' # r1"
    "takeWhile is_digit r1 \<noteq> []"
  shows "match_decimal s =
    Some (takeWhile is_digit s @ CHR ''.'' # takeWhile is_digit r1, dropWhile is_digit r1)"
  unfolding match_decimal_def Let_def assms(2) using assms(1,3)
  by simp

lemma match_decimal_nodot:
  assumes "takeWhile is_digit s \<noteq> []"
    "\<not> (\<exists>r1. dropWhile is_digit s = CHR ''.'' # r1 \<and> takeWhile is_digit r1 \<noteq> [])"
  shows "match_decimal s = Some (takeWhile is_digit s, dropWhile is_digit s)"
proof (cases "dropWhile is_digit s")
  case Nil
  show ?thesis unfolding match_decimal_def Let_def Nil using assms(1) by simp
next
  case (Cons c r1)
  with assms(2) have "\<not> (c = CHR ''.'' \<and> takeWhile is_digit r1 \<noteq> [])" by blast
  then show ?thesis unfolding match_decimal_def Let_def Cons using assms(1)
    by simp
qed

lemma match_decimal_shape:
  assumes "match_decimal s = Some (n, r)"
  shows "\<exists>ip fp. ip \<noteq> [] \<and> list_all is_digit ip \<and> list_all is_digit fp \<and>
           n = decimal_text ip fp \<and> s = n @ r"
proof -
  let ?ip = "takeWhile is_digit s" and ?r = "dropWhile is_digit s"
  have ip: "?ip \<noteq> []" using assms match_decimal_none by fastforce
  have dip: "list_all is_digit ?ip" by (metis list_all_iff set_takeWhileD)
  have s: "s = ?ip @ ?r" by simp
  show ?thesis
  proof (cases "\<exists>r1. ?r = CHR ''.'' # r1 \<and> takeWhile is_digit r1 \<noteq> []")
    case True
    then obtain r1 where r1: "?r = CHR ''.'' # r1" "takeWhile is_digit r1 \<noteq> []" by blast
    let ?fp = "takeWhile is_digit r1"
    have n: "n = ?ip @ CHR ''.'' # ?fp" and r: "r = dropWhile is_digit r1"
      using assms match_decimal_dot[OF ip r1] by simp_all
    have dfp: "list_all is_digit ?fp" by (metis list_all_iff set_takeWhileD)
    have sn: "s = n @ r" using n r r1 s by (metis append.assoc append_Cons takeWhile_dropWhile_id)
    have n': "n = decimal_text ?ip ?fp" using n r1(2) by (simp add: decimal_text_def)
    from ip dip dfp n' sn show ?thesis by blast
  next
    case False
    have nr: "n = ?ip" "r = ?r"
      using assms match_decimal_nodot[OF ip False] by simp_all
    have sn: "s = n @ r" unfolding nr by simp
    have n': "n = decimal_text ?ip []" using nr by (simp add: decimal_text_def)
    have "list_all is_digit []" by simp
    with ip dip n' sn show ?thesis by blast
  qed
qed

lemma digit_head_facts:
  "is_digit c \<Longrightarrow> c \<noteq> CHR ''-'' \<and> c \<noteq> CHR ''+'' \<and> c \<noteq> CHR ''I'' \<and> c \<noteq> CHR ''.'' \<and> c \<noteq> CHR '':''"
  by (auto simp: is_digit_def)

lemma decimal_text_head:
  "ip \<noteq> [] \<Longrightarrow> list_all is_digit ip \<Longrightarrow> \<exists>c cs. decimal_text ip fp = c # cs \<and> is_digit c"
  by (cases ip) (auto simp: decimal_text_def)

lemma parse_unsigned_decimal_text:
  assumes "ip \<noteq> []" "list_all is_digit ip" "list_all is_digit fp"
  shows "parse_unsigned (decimal_text ip fp) = Some (dec_val ip fp)"
proof (cases "fp = []")
  case True
  then show ?thesis using assms
    by (simp add: parse_unsigned_def decimal_text_def Let_def takeWhile_digits_all
        dropWhile_digits_all exponent_part_def pow10_def)
next
  case False
  then show ?thesis using assms
    by (simp add: parse_unsigned_def decimal_text_def Let_def takeWhile_digits_all
        dropWhile_digits_all takeWhile_digits_then dropWhile_digits_then
        exponent_part_def pow10_def)
qed

lemma parseFloat_decimal_text:
  assumes "ip \<noteq> []" "list_all is_digit ip" "list_all is_digit fp"
  shows "parseFloat (decimal_text ip fp) = round_double (dec_val ip fp)"
proof -
  from decimal_text_head[OF assms(1,2)] obtain c cs
    where t: "decimal_text ip fp = c # cs" and c: "is_digit c" by blast
  have ts: "trimStart (c # cs) = c # cs"
    using c by (simp add: trimStart_printable is_digit_printable)
  have pu: "parse_unsigned (c # cs) = Some (dec_val ip fp)"
    using parse_unsigned_decimal_text[OF assms] t by simp
  show ?thesis
    unfolding parseFloat_def Let_def t ts
    using digit_head_facts[OF c] pu by auto
qed

lemma decimal_text_no_colon:
  "list_all is_digit ip \<Longrightarrow> list_all is_digit fp \<Longrightarrow> CHR '':'' \<notin> set (decimal_text ip fp)"
  by (auto simp: decimal_text_def list_all_iff)

lemma match_decimal_no_colon:
  assumes "match_decimal s = Some (n, r)"
  shows "s = n @ r \<and> CHR '':'' \<notin> set n"
  using match_decimal_shape[OF assms] decimal_text_no_colon by blast

lemma match_unit_part_split:
  assumes "match_unit_part lo up s = (g, r)" "lo \<noteq> CHR '':''" "up \<noteq> CHR '':''"
  shows "\<exists>p. s = p @ r \<and> CHR '':'' \<notin> set p"
proof (cases "match_decimal s")
  case None
  with assms have "r = s" by (simp add: match_unit_part_def)
  then show ?thesis by simp
next
  case (Some nr)
  obtain n r0 where nr: "nr = (n, r0)" by (cases nr)
  from Some nr match_decimal_no_colon have sn: "s = n @ r0" and nc: "CHR '':'' \<notin> set n"
    by blast+
  show ?thesis
  proof (cases r0)
    case Nil
    with Some nr assms have "r = s" by (simp add: match_unit_part_def)
    then show ?thesis by simp
  next
    case (Cons c r1)
    show ?thesis
    proof (cases "c = lo \<or> c = up")
      case True
      with Some nr Cons assms have "r = r1" by (auto simp: match_unit_part_def)
      with sn Cons have "s = (n @ [c]) @ r" by simp
      moreover have "CHR '':'' \<notin> set (n @ [c])" using nc True assms by auto
      ultimately show ?thesis by blast
    next
      case False
      with Some nr Cons assms have "r = s" by (auto simp: match_unit_part_def)
      then show ?thesis by simp
    qed
  qed
qed

lemma unit_re_no_colon:
  assumes "unit_re s = Some x"
  shows "CHR '':'' \<notin> set s"
proof -
  obtain h r1 where a: "match_unit_part CHR ''h'' CHR ''H'' s = (h, r1)" by force
  obtain m r2 where b: "match_unit_part CHR ''m'' CHR ''M'' r1 = (m, r2)" by force
  obtain sec r3 where c: "match_unit_part CHR ''s'' CHR ''S'' r2 = (sec, r3)" by force
  from assms a b c have r3: "r3 = []"
    by (simp add: unit_re_def split: if_splits)
  from match_unit_part_split[OF a] obtain p1 where p1: "s = p1 @ r1" "CHR '':'' \<notin> set p1" by auto
  from match_unit_part_split[OF b] obtain p2 where p2: "r1 = p2 @ r2" "CHR '':'' \<notin> set p2" by auto
  from match_unit_part_split[OF c] obtain p3 where p3: "r2 = p3 @ r3" "CHR '':'' \<notin> set p3" by auto
  have "set s = set p1 \<union> set p2 \<union> set p3" using p1(1) p2(1) p3(1) r3 by (metis append_Nil2 set_append sup_assoc)
  with p1(2) p2(2) p3(2) show ?thesis by simp
qed

lemma unit_branch_colon: "CHR '':'' \<in> set s \<Longrightarrow> unit_branch s = None"
  using unit_re_no_colon by (cases "unit_re s") (auto simp: unit_branch_def)

lemma numeric_re_colon: "CHR '':'' \<in> set s \<Longrightarrow> \<not> numeric_re s"
proof
  assume c: "CHR '':'' \<in> set s" and n: "numeric_re s"
  from n obtain t where "match_decimal s = Some (t, [])"
    by (auto simp: numeric_re_def split: option.splits)
  from match_decimal_no_colon[OF this] c show False by simp
qed

lemma split_on_free: "d \<notin> set s \<Longrightarrow> split_on d s = [s]"
  by (induction s) auto

lemma split_on_append: "d \<notin> set a \<Longrightarrow> split_on d (a @ d # b) = a # split_on d b"
  by (induction a) auto

lemma parse_with_colon:
  assumes "CHR '':'' \<in> set (trim s)"
  shows "parseTimeToSeconds s =
    (case clock_branch (trim s) of Some r \<Rightarrow> r
     | None \<Rightarrow> Inl (Error (''Unsupported time format: '' @ s)))"
proof -
  from assms have ne: "trim s \<noteq> []" by auto
  show ?thesis
    unfolding parseTimeToSeconds_def Let_def
    using ne numeric_re_colon[OF assms] unit_branch_colon[OF assms] by simp
qed
subsection \<open>Clock expressions\<close>

lemma parseFloat_empty: "parseFloat [] = NaN"
  by code_simp

lemma parseFloat_finite_nonempty: "parseFloat a = Finite x \<Longrightarrow> a \<noteq> []"
  using parseFloat_empty by auto

lemma clock_two_fields:
  assumes "map trim (split_on CHR '':'' (trim s)) = [a, b]"
    "parseFloat a = Finite x" "parseFloat b = Finite y"
  shows "parseTimeToSeconds s = Inr (js_add (js_mul (Finite x) (Finite 60)) (Finite y))"
proof -
  have c: "CHR '':'' \<in> set (trim s)"
  proof (rule ccontr)
    assume "CHR '':'' \<notin> set (trim s)"
    from split_on_free[OF this] assms(1) show False by simp
  qed
  have "clock_branch (trim s) = Some (Inr (js_add (js_mul (Finite x) (Finite 60)) (Finite y)))"
    unfolding clock_branch_def Let_def assms(1)
    using c assms(2,3) parseFloat_finite_nonempty[OF assms(2)] parseFloat_finite_nonempty[OF assms(3)]
    by (simp del: js_add.simps js_mul.simps)
  with parse_with_colon[OF c] show ?thesis by simp
qed

lemma clock_three_fields:
  assumes "map trim (split_on CHR '':'' (trim s)) = [a, b, c]"
    "parseFloat a = Finite x" "parseFloat b = Finite y" "parseFloat c = Finite z"
  shows "parseTimeToSeconds s =
    Inr (js_add (js_add (js_mul (Finite x) (Finite 3600)) (js_mul (Finite y) (Finite 60))) (Finite z))"
proof -
  have c: "CHR '':'' \<in> set (trim s)"
  proof (rule ccontr)
    assume "CHR '':'' \<notin> set (trim s)"
    from split_on_free[OF this] assms(1) show False by simp
  qed
  have "clock_branch (trim s) =
      Some (Inr (js_add (js_add (js_mul (Finite x) (Finite 3600)) (js_mul (Finite y) (Finite 60)))
        (Finite z)))"
    unfolding clock_branch_def Let_def assms(1)
    using c assms(2-4) parseFloat_finite_nonempty[OF assms(2)] parseFloat_finite_nonempty[OF assms(3)]
      parseFloat_finite_nonempty[OF assms(4)]
    by (simp del: js_add.simps js_mul.simps)
  with parse_with_colon[OF c] show ?thesis by simp
qed

text \<open>On whole numbers the arithmetic of the numbers is exact as long as it stays below \<open>2 ^ 53\<close>.\<close>

lemma whole_total2:
  assumes "0 \<le> i" "0 \<le> j" "i * 60 + j < 2 ^ 53"
  shows "js_add (js_mul (Finite (of_int i)) (Finite 60)) (Finite (of_int j)) =
    Finite (of_int (i * 60 + j))"
proof -
  have "\<bar>i * 60\<bar> < 2 ^ 53" "\<bar>i * 60 + j\<bar> < 2 ^ 53" using assms by simp_all
  from round_double_int[OF this(1)] round_double_int[OF this(2)] show ?thesis by simp
qed

lemma whole_total3:
  assumes "0 \<le> i" "0 \<le> j" "0 \<le> k" "i * 3600 + j * 60 + k < 2 ^ 53"
  shows "js_add (js_add (js_mul (Finite (of_int i)) (Finite 3600)) (js_mul (Finite (of_int j)) (Finite 60)))
      (Finite (of_int k)) = Finite (of_int (i * 3600 + j * 60 + k))"
proof -
  have "\<bar>i * 3600\<bar> < 2 ^ 53" "\<bar>j * 60\<bar> < 2 ^ 53" "\<bar>i * 3600 + j * 60\<bar> < 2 ^ 53"
    "\<bar>i * 3600 + j * 60 + k\<bar> < 2 ^ 53"
    using assms by simp_all
  from round_double_int[OF this(1)] round_double_int[OF this(2)] round_double_int[OF this(3)]
    round_double_int[OF this(4)]
  show ?thesis by simp
qed

text \<open>
  C10. A clock expression is read by plain field arithmetic, with no range restriction on a
  field: when the trimmed input splits at the colons into two (or three) trimmed fields and
  \<open>parseFloat\<close> reads a finite number from each, the result is
  minutes * 60 + seconds (or hours * 3600 + minutes * 60 + seconds) in the arithmetic of
  the numbers, whatever the size of the fields and whether or not they are whole numbers.
  For fields that are whole numbers, not negative, with a result below \<open>2 ^ 53\<close>, this is
  the exact sum. So "90:00" is 5400, "1:90" is 150 and "0:1.5" is 1.5; "2.05:0" is the
  double 122.99999999999999, the product of the double read from "2.05" and 60.
\<close>

theorem clock_fields_unrestricted:
  "(map trim (split_on CHR '':'' (trim s)) = [a, b] \<and>
      parseFloat a = Finite x \<and> parseFloat b = Finite y
      \<longrightarrow> parseTimeToSeconds s = Inr (js_add (js_mul (Finite x) (Finite 60)) (Finite y)))
   \<and> (map trim (split_on CHR '':'' (trim s')) = [a', b', c'] \<and>
      parseFloat a' = Finite x' \<and> parseFloat b' = Finite y' \<and> parseFloat c' = Finite z'
      \<longrightarrow> parseTimeToSeconds s' =
          Inr (js_add (js_add (js_mul (Finite x') (Finite 3600)) (js_mul (Finite y') (Finite 60)))
                 (Finite z')))
   \<and> (map trim (split_on CHR '':'' (trim t)) = [d, e] \<and>
      parseFloat d = Finite (of_int i) \<and> parseFloat e = Finite (of_int j) \<and>
      0 \<le> i \<and> 0 \<le> j \<and> i * 60 + j < 2 ^ 53
      \<longrightarrow> parseTimeToSeconds t = Inr (Finite (of_int (i * 60 + j))))
   \<and> (map trim (split_on CHR '':'' (trim t')) = [d', e', f'] \<and>
      parseFloat d' = Finite (of_int i') \<and> parseFloat e' = Finite (of_int j') \<and>
      parseFloat f' = Finite (of_int k') \<and>
      0 \<le> i' \<and> 0 \<le> j' \<and> 0 \<le> k' \<and> i' * 3600 + j' * 60 + k' < 2 ^ 53
      \<longrightarrow> parseTimeToSeconds t' = Inr (Finite (of_int (i' * 3600 + j' * 60 + k'))))
   \<and> parseTimeToSeconds ''90:00'' = Inr (Finite 5400)
   \<and> parseTimeToSeconds ''1:90'' = Inr (Finite 150)
   \<and> parseTimeToSeconds ''0:1.5'' = Inr (Finite (3 / 2))
   \<and> parseTimeToSeconds ''2.05:0'' = Inr (Finite (8655355533852671 / 70368744177664))"
proof (intro conjI impI)
  show "parseTimeToSeconds ''90:00'' = Inr (Finite 5400)" by code_simp
  show "parseTimeToSeconds ''1:90'' = Inr (Finite 150)" by code_simp
  show "parseTimeToSeconds ''0:1.5'' = Inr (Finite (3 / 2))" by code_simp
  show "parseTimeToSeconds ''2.05:0'' = Inr (Finite (8655355533852671 / 70368744177664))"
    by code_simp
  show "parseTimeToSeconds s = Inr (js_add (js_mul (Finite x) (Finite 60)) (Finite y))"
    if "map trim (split_on CHR '':'' (trim s)) = [a, b] \<and>
      parseFloat a = Finite x \<and> parseFloat b = Finite y"
    using that by (elim conjE) (rule clock_two_fields; assumption)
  show "parseTimeToSeconds s' =
      Inr (js_add (js_add (js_mul (Finite x') (Finite 3600)) (js_mul (Finite y') (Finite 60)))
             (Finite z'))"
    if "map trim (split_on CHR '':'' (trim s')) = [a', b', c'] \<and>
      parseFloat a' = Finite x' \<and> parseFloat b' = Finite y' \<and> parseFloat c' = Finite z'"
    using that by (elim conjE) (rule clock_three_fields; assumption)
  show "parseTimeToSeconds t = Inr (Finite (of_int (i * 60 + j)))"
    if h: "map trim (split_on CHR '':'' (trim t)) = [d, e] \<and>
      parseFloat d = Finite (of_int i) \<and> parseFloat e = Finite (of_int j) \<and>
      0 \<le> i \<and> 0 \<le> j \<and> i * 60 + j < 2 ^ 53"
  proof -
    from h have "parseTimeToSeconds t =
        Inr (js_add (js_mul (Finite (of_int i)) (Finite 60)) (Finite (of_int j)))"
      by (elim conjE) (rule clock_two_fields; assumption)
    moreover from h have "js_add (js_mul (Finite (of_int i)) (Finite 60)) (Finite (of_int j)) =
        Finite (of_int (i * 60 + j))"
      by (elim conjE) (rule whole_total2; assumption)
    ultimately show ?thesis by (simp only:)
  qed
  show "parseTimeToSeconds t' = Inr (Finite (of_int (i' * 3600 + j' * 60 + k')))"
    if h: "map trim (split_on CHR '':'' (trim t')) = [d', e', f'] \<and>
      parseFloat d' = Finite (of_int i') \<and> parseFloat e' = Finite (of_int j') \<and>
      parseFloat f' = Finite (of_int k') \<and>
      0 \<le> i' \<and> 0 \<le> j' \<and> 0 \<le> k' \<and> i' * 3600 + j' * 60 + k' < 2 ^ 53"
  proof -
    from h have "parseTimeToSeconds t' =
        Inr (js_add (js_add (js_mul (Finite (of_int i')) (Finite 3600))
               (js_mul (Finite (of_int j')) (Finite 60))) (Finite (of_int k')))"
      by (elim conjE) (rule clock_three_fields; assumption)
    moreover from h have "js_add (js_add (js_mul (Finite (of_int i')) (Finite 3600))
               (js_mul (Finite (of_int j')) (Finite 60))) (Finite (of_int k')) =
        Finite (of_int (i' * 3600 + j' * 60 + k'))"
      by (elim conjE) (rule whole_total3; assumption)
    ultimately show ?thesis by (simp only:)
  qed
qed

text \<open>The statement at " 75:61.5 ", at "1:75:90", at "90:75" and at "100:75:90".\<close>

theorem clock_fields_unrestricted_witness:
  "map trim (split_on CHR '':'' (trim '' 75:61.5 '')) = [''75'', ''61.5'']
   \<and> parseFloat ''75'' = Finite 75 \<and> parseFloat ''61.5'' = Finite (123 / 2)
   \<and> parseTimeToSeconds '' 75:61.5 '' = Inr (js_add (js_mul (Finite 75) (Finite 60)) (Finite (123 / 2)))
   \<and> js_add (js_mul (Finite 75) (Finite 60)) (Finite (123 / 2)) = Finite (9123 / 2)
   \<and> map trim (split_on CHR '':'' (trim ''1:75:90'')) = [''1'', ''75'', ''90'']
   \<and> parseFloat ''1'' = Finite 1 \<and> parseFloat ''90'' = Finite 90
   \<and> parseTimeToSeconds ''1:75:90'' =
       Inr (js_add (js_add (js_mul (Finite 1) (Finite 3600)) (js_mul (Finite 75) (Finite 60)))
              (Finite 90))
   \<and> map trim (split_on CHR '':'' (trim ''90:75'')) = [''90'', ''75'']
   \<and> parseTimeToSeconds ''90:75'' = Inr (Finite (of_int (90 * 60 + 75)))
   \<and> map trim (split_on CHR '':'' (trim ''100:75:90'')) = [''100'', ''75'', ''90'']
   \<and> parseFloat ''100'' = Finite 100
   \<and> parseTimeToSeconds ''100:75:90'' = Inr (Finite (of_int (100 * 3600 + 75 * 60 + 90)))"
proof -
  have h1: "map trim (split_on CHR '':'' (trim '' 75:61.5 '')) = [''75'', ''61.5'']" by code_simp
  have h2: "parseFloat ''75'' = Finite 75" by code_simp
  have h3: "parseFloat ''61.5'' = Finite (123 / 2)" by code_simp
  have h4: "map trim (split_on CHR '':'' (trim ''1:75:90'')) = [''1'', ''75'', ''90'']" by code_simp
  have h5: "parseFloat ''1'' = Finite 1" by code_simp
  have h6: "parseFloat ''90'' = Finite 90" by code_simp
  have h7: "map trim (split_on CHR '':'' (trim ''90:75'')) = [''90'', ''75'']" by code_simp
  have h8: "map trim (split_on CHR '':'' (trim ''100:75:90'')) = [''100'', ''75'', ''90'']"
    by code_simp
  have h9: "parseFloat ''100'' = Finite 100" by code_simp
  have ev: "js_add (js_mul (Finite 75) (Finite 60)) (Finite (123 / 2)) = Finite (9123 / 2)"
    by code_simp
  have i2: "parseFloat ''90'' = Finite (of_int 90)" "parseFloat ''75'' = Finite (of_int 75)"
    "parseFloat ''100'' = Finite (of_int 100)"
    using h2 h6 h9 by simp_all
  have b2: "(0::int) \<le> 90 \<and> (0::int) \<le> 75 \<and> (90::int) * 60 + 75 < 2 ^ 53" by simp
  have b3: "(0::int) \<le> 100 \<and> (0::int) \<le> 75 \<and> (0::int) \<le> 90 \<and>
      (100::int) * 3600 + 75 * 60 + 90 < 2 ^ 53" by simp
  note inst = clock_fields_unrestricted[of "'' 75:61.5 ''" "''75''" "''61.5''" 75 "123 / 2"
      "''1:75:90''" "''1''" "''75''" "''90''" 1 75 90
      "''90:75''" "''90''" "''75''" 90 75
      "''100:75:90''" "''100''" "''75''" "''90''" 100 75 90]
  from inst h1 h2 h3 have c1: "parseTimeToSeconds '' 75:61.5 '' =
      Inr (js_add (js_mul (Finite 75) (Finite 60)) (Finite (123 / 2)))" by blast
  from inst h4 h5 h2 h6 have c2: "parseTimeToSeconds ''1:75:90'' =
       Inr (js_add (js_add (js_mul (Finite 1) (Finite 3600)) (js_mul (Finite 75) (Finite 60)))
              (Finite 90))" by blast
  from inst h7 i2 b2 have c3: "parseTimeToSeconds ''90:75'' = Inr (Finite (of_int (90 * 60 + 75)))"
    by blast
  from inst h8 i2 b3 have c4: "parseTimeToSeconds ''100:75:90'' =
      Inr (Finite (of_int (100 * 3600 + 75 * 60 + 90)))"
    by blast
  from h1 h2 h3 h4 h5 h6 h7 h8 h9 ev c1 c2 c3 c4 show ?thesis by blast
qed

subsection \<open>Clock expressions written from valid decimals\<close>

lemma decimal_text_ends:
  assumes "valid_decimal d"
  shows "decimal_text (fst d) (snd d) \<noteq> []"
    and "is_digit (hd (decimal_text (fst d) (snd d)))"
    and "is_digit (last (decimal_text (fst d) (snd d)))"
proof -
  obtain ip fp where d: "d = (ip, fp)" by (cases d)
  from assms d have ip: "ip \<noteq> []" "list_all is_digit ip" "list_all is_digit fp"
    by (simp_all add: valid_decimal_def)
  show "decimal_text (fst d) (snd d) \<noteq> []" using ip d by (simp add: decimal_text_def)
  show "is_digit (hd (decimal_text (fst d) (snd d)))"
    using ip d by (cases ip) (simp_all add: decimal_text_def)
  show "is_digit (last (decimal_text (fst d) (snd d)))"
    using ip d by (auto simp: decimal_text_def list_all_iff)
qed

lemma trim_decimal_text:
  "valid_decimal d \<Longrightarrow> trim (decimal_text (fst d) (snd d)) = decimal_text (fst d) (snd d)"
  by (simp add: trim_printable decimal_text_ends is_digit_printable)

lemma parseFloat_valid_decimal:
  "valid_decimal d \<Longrightarrow> parseFloat (decimal_text (fst d) (snd d)) = decimal_number d"
  by (simp add: valid_decimal_def decimal_value_def decimal_number_def parseFloat_decimal_text)

lemma valid_decimal_no_colon:
  "valid_decimal d \<Longrightarrow> CHR '':'' \<notin> set (decimal_text (fst d) (snd d))"
  by (simp add: valid_decimal_def decimal_text_no_colon)

lemma trim_clock2:
  assumes "valid_decimal a" "valid_decimal b"
  shows "trim (clock_text [a, b]) = clock_text [a, b]"
proof -
  let ?t = "clock_text [a, b]"
  have "?t \<noteq> []" by simp
  moreover have "hd ?t = hd (decimal_text (fst a) (snd a))"
    using decimal_text_ends(1)[OF assms(1)] by simp
  moreover have "last ?t = last (decimal_text (fst b) (snd b))"
    using decimal_text_ends(1)[OF assms(2)] by simp
  ultimately show ?thesis
    using decimal_text_ends[OF assms(1)] decimal_text_ends[OF assms(2)]
    by (intro trim_printable) (simp_all add: is_digit_printable)
qed

lemma trim_clock3:
  assumes "valid_decimal a" "valid_decimal b" "valid_decimal c"
  shows "trim (clock_text [a, b, c]) = clock_text [a, b, c]"
proof -
  let ?t = "clock_text [a, b, c]"
  have "?t \<noteq> []" by simp
  moreover have "hd ?t = hd (decimal_text (fst a) (snd a))"
    using decimal_text_ends(1)[OF assms(1)] by simp
  moreover have "last ?t = last (decimal_text (fst c) (snd c))"
    using decimal_text_ends(1)[OF assms(3)] by simp
  ultimately show ?thesis
    using decimal_text_ends[OF assms(1)] decimal_text_ends[OF assms(3)]
    by (intro trim_printable) (simp_all add: is_digit_printable)
qed

lemma clock_text_split2:
  assumes "valid_decimal a" "valid_decimal b"
  shows "map trim (split_on CHR '':'' (trim (clock_text [a, b]))) =
      [decimal_text (fst a) (snd a), decimal_text (fst b) (snd b)]"
  unfolding trim_clock2[OF assms] using assms
  by (simp add: split_on_append split_on_free valid_decimal_no_colon trim_decimal_text)

lemma clock_text_split3:
  assumes "valid_decimal a" "valid_decimal b" "valid_decimal c"
  shows "map trim (split_on CHR '':'' (trim (clock_text [a, b, c]))) =
      [decimal_text (fst a) (snd a), decimal_text (fst b) (snd b), decimal_text (fst c) (snd c)]"
  unfolding trim_clock3[OF assms] using assms
  by (simp add: split_on_append split_on_free valid_decimal_no_colon trim_decimal_text)

lemma clock_text_two:
  assumes "valid_decimal a" "valid_decimal b"
    "isFinite (decimal_number a)" "isFinite (decimal_number b)"
  shows "parseTimeToSeconds (clock_text [a, b]) =
    Inr (clock_total2 (decimal_number a) (decimal_number b))"
proof -
  from assms(3,4) obtain x y where n: "decimal_number a = Finite x" "decimal_number b = Finite y"
    by (cases "decimal_number a"; cases "decimal_number b") auto
  have "parseTimeToSeconds (clock_text [a, b]) =
      Inr (js_add (js_mul (Finite x) (Finite 60)) (Finite y))"
    using clock_text_split2[OF assms(1,2)]
  proof (rule clock_two_fields)
    show "parseFloat (decimal_text (fst a) (snd a)) = Finite x"
      using assms(1) n by (simp add: parseFloat_valid_decimal)
    show "parseFloat (decimal_text (fst b) (snd b)) = Finite y"
      using assms(2) n by (simp add: parseFloat_valid_decimal)
  qed
  then show ?thesis by (simp only: clock_total2_def n)
qed

lemma clock_text_three:
  assumes "valid_decimal a" "valid_decimal b" "valid_decimal c"
    "isFinite (decimal_number a)" "isFinite (decimal_number b)" "isFinite (decimal_number c)"
  shows "parseTimeToSeconds (clock_text [a, b, c]) =
    Inr (clock_total3 (decimal_number a) (decimal_number b) (decimal_number c))"
proof -
  from assms(4-6) obtain x y z where n: "decimal_number a = Finite x" "decimal_number b = Finite y"
    "decimal_number c = Finite z"
    by (cases "decimal_number a"; cases "decimal_number b"; cases "decimal_number c") auto
  have "parseTimeToSeconds (clock_text [a, b, c]) =
      Inr (js_add (js_add (js_mul (Finite x) (Finite 3600)) (js_mul (Finite y) (Finite 60)))
             (Finite z))"
    using clock_text_split3[OF assms(1-3)]
  proof (rule clock_three_fields)
    show "parseFloat (decimal_text (fst a) (snd a)) = Finite x"
      using assms(1) n by (simp add: parseFloat_valid_decimal)
    show "parseFloat (decimal_text (fst b) (snd b)) = Finite y"
      using assms(2) n by (simp add: parseFloat_valid_decimal)
    show "parseFloat (decimal_text (fst c) (snd c)) = Finite z"
      using assms(3) n by (simp add: parseFloat_valid_decimal)
  qed
  then show ?thesis by (simp only: clock_total3_def n)
qed

text \<open>Whole decimals: the value is the whole number its digits write, and it is not negative.\<close>

lemma digits_val_snoc: "digits_val (ds @ [c]) = 10 * digits_val ds + digit_val c"
  by (simp add: digits_val_def)

lemma of_char_int: "(of_char c :: int) = int (of_char c)"
  by (metis of_nat_of_char)

lemma digit_val_range: "is_digit c \<Longrightarrow> 0 \<le> digit_val c \<and> digit_val c \<le> 9"
  by (auto simp: is_digit_def digit_val_def of_char_int)

lemma digits_val_nonneg: "list_all is_digit ds \<Longrightarrow> 0 \<le> digits_val ds"
proof (induction ds rule: rev_induct)
  case Nil
  show ?case by (simp add: digits_val_def)
next
  case (snoc c ds)
  then show ?case using digit_val_range[of c] by (simp add: digits_val_snoc)
qed

lemma digits_val_zeros: "digits_val (replicate k CHR ''0'' @ ds) = digits_val ds"
proof (induction k)
  case 0
  show ?case by simp
next
  case (Suc k)
  have "digits_val (CHR ''0'' # xs) = digits_val xs" for xs
    by (simp add: digits_val_def digit_val_def)
  with Suc show ?case by simp
qed

lemma whole_decimal_value:
  "whole_decimal d \<Longrightarrow> decimal_value d = of_int (digits_val (fst d)) \<and> 0 \<le> digits_val (fst d)"
  by (simp add: whole_decimal_def valid_decimal_def decimal_value_def dec_val_def
      digits_val_nonneg digits_val_def[of "[]"])

lemma whole_decimal_number:
  assumes "whole_decimal d" "decimal_value d < 2 ^ 53"
  shows "decimal_number d = Finite (decimal_value d)"
proof -
  from whole_decimal_value[OF assms(1)] have v: "decimal_value d = of_int (digits_val (fst d))"
    and n: "0 \<le> digits_val (fst d)" by simp_all
  from assms(2) v have "(of_int (digits_val (fst d)) :: rat) < of_int (2 ^ 53)" by simp
  then have "digits_val (fst d) < 2 ^ 53" by (simp only: of_int_less_iff)
  with n have "\<bar>digits_val (fst d)\<bar> < 2 ^ 53" by simp
  from round_double_int[OF this] show ?thesis by (simp add: decimal_number_def v)
qed

lemma clock_text_two_whole:
  assumes "whole_decimal a" "whole_decimal b"
    "decimal_value a * 60 + decimal_value b < 2 ^ 53"
  shows "parseTimeToSeconds (clock_text [a, b]) =
    Inr (Finite (decimal_value a * 60 + decimal_value b))"
proof -
  let ?i = "digits_val (fst a)" and ?j = "digits_val (fst b)"
  note va = whole_decimal_value[OF assms(1)] and vb = whole_decimal_value[OF assms(2)]
  have s: "decimal_value a * 60 + decimal_value b = of_int (?i * 60 + ?j)"
    using va vb by simp
  with assms(3) have "(of_int (?i * 60 + ?j) :: rat) < of_int (2 ^ 53)" by simp
  then have b: "?i * 60 + ?j < 2 ^ 53" by (simp only: of_int_less_iff)
  have ba: "decimal_value a < 2 ^ 53" "decimal_value b < 2 ^ 53"
  proof -
    have "?i \<le> ?i * 60 + ?j" "?j \<le> ?i * 60 + ?j" using va vb by simp_all
    with b have "?i < 2 ^ 53" "?j < 2 ^ 53" by simp_all
    then have "(of_int ?i :: rat) < of_int (2 ^ 53)" "(of_int ?j :: rat) < of_int (2 ^ 53)"
      by (simp_all only: of_int_less_iff)
    then show "decimal_value a < 2 ^ 53" "decimal_value b < 2 ^ 53" using va vb by simp_all
  qed
  have na: "decimal_number a = Finite (of_int ?i)" "decimal_number b = Finite (of_int ?j)"
    using whole_decimal_number[OF assms(1) ba(1)] whole_decimal_number[OF assms(2) ba(2)] va vb
    by simp_all
  have v: "valid_decimal a" "valid_decimal b" using assms(1,2) by (simp_all add: whole_decimal_def)
  have "parseTimeToSeconds (clock_text [a, b]) =
      Inr (clock_total2 (decimal_number a) (decimal_number b))"
    using v na by (intro clock_text_two) simp_all
  also have "clock_total2 (decimal_number a) (decimal_number b) = Finite (of_int (?i * 60 + ?j))"
    unfolding clock_total2_def na using va vb b by (intro whole_total2) simp_all
  finally show ?thesis by (simp only: s)
qed

lemma clock_text_three_whole:
  assumes "whole_decimal a" "whole_decimal b" "whole_decimal c"
    "decimal_value a * 3600 + decimal_value b * 60 + decimal_value c < 2 ^ 53"
  shows "parseTimeToSeconds (clock_text [a, b, c]) =
    Inr (Finite (decimal_value a * 3600 + decimal_value b * 60 + decimal_value c))"
proof -
  let ?i = "digits_val (fst a)" and ?j = "digits_val (fst b)" and ?k = "digits_val (fst c)"
  note va = whole_decimal_value[OF assms(1)] and vb = whole_decimal_value[OF assms(2)]
    and vc = whole_decimal_value[OF assms(3)]
  have s: "decimal_value a * 3600 + decimal_value b * 60 + decimal_value c =
      of_int (?i * 3600 + ?j * 60 + ?k)"
    using va vb vc by simp
  with assms(4) have "(of_int (?i * 3600 + ?j * 60 + ?k) :: rat) < of_int (2 ^ 53)" by simp
  then have b: "?i * 3600 + ?j * 60 + ?k < 2 ^ 53" by (simp only: of_int_less_iff)
  have ba: "decimal_value a < 2 ^ 53" "decimal_value b < 2 ^ 53" "decimal_value c < 2 ^ 53"
  proof -
    have "?i \<le> ?i * 3600 + ?j * 60 + ?k" "?j \<le> ?i * 3600 + ?j * 60 + ?k"
      "?k \<le> ?i * 3600 + ?j * 60 + ?k"
      using va vb vc by simp_all
    with b have "?i < 2 ^ 53" "?j < 2 ^ 53" "?k < 2 ^ 53" by simp_all
    then have "(of_int ?i :: rat) < of_int (2 ^ 53)" "(of_int ?j :: rat) < of_int (2 ^ 53)"
      "(of_int ?k :: rat) < of_int (2 ^ 53)"
      by (simp_all only: of_int_less_iff)
    then show "decimal_value a < 2 ^ 53" "decimal_value b < 2 ^ 53" "decimal_value c < 2 ^ 53"
      using va vb vc by simp_all
  qed
  have na: "decimal_number a = Finite (of_int ?i)" "decimal_number b = Finite (of_int ?j)"
    "decimal_number c = Finite (of_int ?k)"
    using whole_decimal_number[OF assms(1) ba(1)] whole_decimal_number[OF assms(2) ba(2)]
      whole_decimal_number[OF assms(3) ba(3)] va vb vc
    by simp_all
  have v: "valid_decimal a" "valid_decimal b" "valid_decimal c"
    using assms(1-3) by (simp_all add: whole_decimal_def)
  have "parseTimeToSeconds (clock_text [a, b, c]) =
      Inr (clock_total3 (decimal_number a) (decimal_number b) (decimal_number c))"
    using v na by (intro clock_text_three) simp_all
  also have "clock_total3 (decimal_number a) (decimal_number b) (decimal_number c) =
      Finite (of_int (?i * 3600 + ?j * 60 + ?k))"
    unfolding clock_total3_def na using va vb vc b by (intro whole_total3) simp_all
  finally show ?thesis by (simp only: s)
qed

subsection \<open>Fields beyond the range of the numbers\<close>

text \<open>
  A field that is read as an infinity makes the clock branch fall through to the final
  \<open>throw\<close>: a field of 310 digits is refused. A product that reaches \<open>2 ^ 1024\<close> is
  an infinity, and so is the value returned.
\<close>

lemma clock_text_two_infinite:
  assumes "valid_decimal a" "valid_decimal b"
    "\<not> (isFinite (decimal_number a) \<and> isFinite (decimal_number b))"
  shows "parseTimeToSeconds (clock_text [a, b]) =
    Inl (Error (''Unsupported time format: '' @ clock_text [a, b]))"
proof -
  let ?s = "clock_text [a, b]"
  have c: "CHR '':'' \<in> set (trim ?s)" unfolding trim_clock2[OF assms(1,2)] by simp
  have ne: "decimal_text (fst a) (snd a) \<noteq> []" "decimal_text (fst b) (snd b) \<noteq> []"
    using decimal_text_ends(1) assms(1,2) by blast+
  have "clock_branch (trim ?s) = None"
    unfolding clock_branch_def Let_def clock_text_split2[OF assms(1,2)]
    using c ne assms(3) by (simp add: parseFloat_valid_decimal assms(1,2))
  with parse_with_colon[OF c] show ?thesis by simp
qed

lemma large_field_value: "dec_val (CHR ''1'' # replicate 309 CHR ''0'') [] = 10 ^ 309"
proof -
  have "digits_val (ds @ replicate k CHR ''0'') = digits_val ds * 10 ^ k" for ds k
  proof (induction k)
    case 0
    show ?case by simp
  next
    case (Suc k)
    have "digits_val (ds @ replicate (Suc k) CHR ''0'') =
        digits_val ((ds @ replicate k CHR ''0'') @ [CHR ''0''])"
      by (simp add: replicate_append_same)
    also have "\<dots> = 10 * digits_val (ds @ replicate k CHR ''0'')"
      by (simp only: digits_val_snoc) (simp add: digit_val_def)
    finally show ?case using Suc by simp
  qed
  from this[of "''1''" 309] show ?thesis
    by (simp add: dec_val_def digits_val_def[of "[]"]) (simp add: digits_val_def digit_val_def)
qed

lemma large_field_infinite: "decimal_number (CHR ''1'' # replicate 309 CHR ''0'', []) = PosInfinity"
proof -
  have "pow2 1024 \<le> (10 ^ 309 :: rat)" by (simp add: pow2_def)
  then show ?thesis
    by (simp add: decimal_number_def decimal_value_def large_field_value round_double_overflow)
qed

lemma large_field_refused:
  "parseTimeToSeconds (clock_text [(CHR ''1'' # replicate 309 CHR ''0'', []), (''0'', [])]) =
     Inl (Error (''Unsupported time format: '' @
       clock_text [(CHR ''1'' # replicate 309 CHR ''0'', []), (''0'', [])]))"
proof (rule clock_text_two_infinite)
  show "valid_decimal (CHR ''1'' # replicate 309 CHR ''0'', [])"
    by (simp add: valid_decimal_def is_digit_def list_all_iff)
  show "valid_decimal (''0'', [])" by (simp add: valid_decimal_def is_digit_def)
  show "\<not> (isFinite (decimal_number (CHR ''1'' # replicate 309 CHR ''0'', [])) \<and>
      isFinite (decimal_number (''0'', [])))"
    by (simp add: large_field_infinite)
qed

lemma product_overflow:
  "pow2 1024 \<le> x * 60 \<Longrightarrow> js_add (js_mul (Finite x) (Finite 60)) (Finite y) = PosInfinity"
  by (simp add: round_double_overflow)

subsection \<open>Compound unit expressions written from valid decimals\<close>

lemma unit_letter_facts:
  "unit_letter c \<Longrightarrow> \<not> is_digit c \<and> c \<noteq> CHR ''.'' \<and> printable c"
  by (auto simp: unit_letter_def printable_def)

lemma match_decimal_valid:
  assumes "valid_decimal d" "unit_letter c"
  shows "match_decimal (decimal_text (fst d) (snd d) @ c # r) = Some (decimal_text (fst d) (snd d), c # r)"
  using assms unit_letter_facts[OF assms(2)]
  by (intro match_decimal_text) (simp_all add: valid_decimal_def)

lemma match_unit_part_present:
  assumes "valid_decimal d" "unit_letter c" "c = lo \<or> c = up"
  shows "match_unit_part lo up (decimal_text (fst d) (snd d) @ c # r) =
    (Some (decimal_text (fst d) (snd d)), r)"
  using assms(3) by (simp add: match_unit_part_def match_decimal_valid[OF assms(1,2)])

lemma match_unit_part_other:
  assumes "valid_decimal d" "unit_letter c" "c \<noteq> lo" "c \<noteq> up"
  shows "match_unit_part lo up (decimal_text (fst d) (snd d) @ c # r) =
    (None, decimal_text (fst d) (snd d) @ c # r)"
  using assms(3,4) by (simp add: match_unit_part_def match_decimal_valid[OF assms(1,2)])

lemma match_unit_part_empty: "match_unit_part lo up [] = (None, [])"
  by (simp add: match_unit_part_def match_decimal_def)

lemma unit_re_unit_text:
  assumes v: "valid_part h" "valid_part m" "valid_part s"
    and l: "uh = CHR ''h'' \<or> uh = CHR ''H''" "um = CHR ''m'' \<or> um = CHR ''M''"
      "us = CHR ''s'' \<or> us = CHR ''S''"
  shows "unit_re (unit_text uh um us h m s) = Some (part_capture h, part_capture m, part_capture s)"
proof -
  have ul: "unit_letter uh" "unit_letter um" "unit_letter us"
    using l by (auto simp: unit_letter_def)
  have ne: "um \<noteq> CHR ''h''" "um \<noteq> CHR ''H''" "us \<noteq> CHR ''h''" "us \<noteq> CHR ''H''"
    "us \<noteq> CHR ''m''" "us \<noteq> CHR ''M''"
    using l by auto
  let ?S = "unit_part_text us s"
  let ?M = "unit_part_text um m @ ?S"
  have s3: "match_unit_part CHR ''s'' CHR ''S'' ?S = (part_capture s, [])"
    using v(3) l(3) ul(3)
    by (cases s) (auto simp: unit_part_text_def part_capture_def valid_part_def
        match_unit_part_empty match_unit_part_present)
  have s2: "match_unit_part CHR ''m'' CHR ''M'' ?S = (None, ?S)"
    using v(3) ul(3) ne
    by (cases s) (auto simp: unit_part_text_def valid_part_def
        match_unit_part_empty match_unit_part_other)
  have s1: "match_unit_part CHR ''h'' CHR ''H'' ?S = (None, ?S)"
    using v(3) ul(3) ne
    by (cases s) (auto simp: unit_part_text_def valid_part_def
        match_unit_part_empty match_unit_part_other)
  have m2: "match_unit_part CHR ''m'' CHR ''M'' ?M = (part_capture m, ?S)"
  proof (cases m)
    case None
    then show ?thesis using s2 by (simp add: unit_part_text_def part_capture_def)
  next
    case (Some d)
    then show ?thesis using v(2) l(2) ul(2)
      by (auto simp: unit_part_text_def part_capture_def valid_part_def match_unit_part_present)
  qed
  have m1: "match_unit_part CHR ''h'' CHR ''H'' ?M = (None, ?M)"
  proof (cases m)
    case None
    then show ?thesis using s1 by (simp add: unit_part_text_def)
  next
    case (Some d)
    then show ?thesis using v(2) ul(2) ne
      by (auto simp: unit_part_text_def valid_part_def match_unit_part_other)
  qed
  have h1: "match_unit_part CHR ''h'' CHR ''H'' (unit_part_text uh h @ ?M) = (part_capture h, ?M)"
  proof (cases h)
    case None
    then show ?thesis using m1 by (simp add: unit_part_text_def part_capture_def)
  next
    case (Some d)
    then show ?thesis using v(1) l(1) ul(1)
      by (auto simp: unit_part_text_def part_capture_def valid_part_def match_unit_part_present)
  qed
  show ?thesis
    by (simp add: unit_re_def unit_text_def h1 m2 s3)
qed

lemma parseFloat_zero: "parseFloat ''0'' = Finite 0"
  by code_simp

lemma round_double_zero: "round_double 0 = Finite 0"
  by (simp add: round_double_def)

lemma parseFloat_capture:
  "valid_part p \<Longrightarrow> parseFloat (capture_or_zero (part_capture p)) = part_number p"
  by (cases p)
    (simp_all add: capture_or_zero_def part_capture_def part_value_def part_number_def
      valid_part_def parseFloat_zero parseFloat_valid_decimal round_double_zero
      decimal_number_def)

lemma unit_branch_unit_text:
  assumes v: "valid_part h" "valid_part m" "valid_part s"
    and l: "uh = CHR ''h'' \<or> uh = CHR ''H''" "um = CHR ''m'' \<or> um = CHR ''M''"
      "us = CHR ''s'' \<or> us = CHR ''S''"
  shows "unit_branch (unit_text uh um us h m s) =
    (if js_gt (unit_total h m s) (Finite 0) then Some (unit_total h m s) else None)"
  unfolding unit_branch_def unit_re_unit_text[OF v l]
  by (simp add: parseFloat_capture v unit_total_def Let_def del: js_add.simps js_mul.simps)

text \<open>A unit expression with a part present starts with a decimal and ends with a unit letter.\<close>

lemma unit_text_shape:
  assumes v: "valid_part h" "valid_part m" "valid_part s"
    and l: "unit_letter uh" "unit_letter um" "unit_letter us"
    and some: "h \<noteq> None \<or> m \<noteq> None \<or> s \<noteq> None"
  shows "\<exists>d c r. valid_decimal d \<and> unit_letter c \<and>
      unit_text uh um us h m s = decimal_text (fst d) (snd d) @ c # r \<and>
      unit_letter (last (unit_text uh um us h m s))"
proof -
  have last_part: "\<And>u p r. p \<noteq> None \<Longrightarrow> last (r @ unit_part_text u p) = u"
    by (auto simp: unit_part_text_def)
  have la: "unit_letter (last (unit_text uh um us h m s))"
  proof (cases s)
    case (Some d)
    then have "last (unit_text uh um us h m s) = us"
      by (simp add: unit_text_def unit_part_text_def)
    with l show ?thesis by simp
  next
    case sN: None
    show ?thesis
    proof (cases m)
      case (Some d)
      with sN have "last (unit_text uh um us h m s) = um"
        by (simp add: unit_text_def unit_part_text_def)
      with l show ?thesis by simp
    next
      case mN: None
      with sN some obtain d where "h = Some d" by auto
      with sN mN have "last (unit_text uh um us h m s) = uh"
        by (simp add: unit_text_def unit_part_text_def)
      with l show ?thesis by simp
    qed
  qed
  have "\<exists>d c r. valid_decimal d \<and> unit_letter c \<and>
      unit_text uh um us h m s = decimal_text (fst d) (snd d) @ c # r"
  proof (cases h)
    case (Some d)
    with v l show ?thesis
      by (intro exI[of _ d] exI[of _ uh]) (simp add: unit_text_def unit_part_text_def valid_part_def)
  next
    case hN: None
    show ?thesis
    proof (cases m)
      case (Some d)
      with hN v l show ?thesis
        by (intro exI[of _ d] exI[of _ um]) (simp add: unit_text_def unit_part_text_def valid_part_def)
    next
      case mN: None
      with hN some obtain d where "s = Some d" by auto
      with hN mN v l show ?thesis
        by (intro exI[of _ d] exI[of _ us]) (simp add: unit_text_def unit_part_text_def valid_part_def)
    qed
  qed
  with la show ?thesis by blast
qed

lemma unit_total_none: "unit_total None None None = Finite 0"
  by (simp add: unit_total_def part_number_def part_value_def round_double_zero)

lemma unit_text_branches:
  assumes v: "valid_part h" "valid_part m" "valid_part s"
    and l: "uh = CHR ''h'' \<or> uh = CHR ''H''" "um = CHR ''m'' \<or> um = CHR ''M''"
      "us = CHR ''s'' \<or> us = CHR ''S''"
    and some: "h \<noteq> None \<or> m \<noteq> None \<or> s \<noteq> None"
  shows "parseTimeToSeconds (unit_text uh um us h m s) =
    (if js_gt (unit_total h m s) (Finite 0) then Inr (unit_total h m s)
     else Inl (Error (''Unsupported time format: '' @ unit_text uh um us h m s)))"
proof -
  let ?t = "unit_text uh um us h m s"
  have ul: "unit_letter uh" "unit_letter um" "unit_letter us"
    using l by (auto simp: unit_letter_def)
  from unit_text_shape[OF v ul some] obtain d c r where
    d: "valid_decimal d" and c: "unit_letter c"
    and t: "?t = decimal_text (fst d) (snd d) @ c # r" and la: "unit_letter (last ?t)"
    by blast
  have ne: "?t \<noteq> []" using t by simp
  have "hd ?t = hd (decimal_text (fst d) (snd d))"
    using t decimal_text_ends(1)[OF d] by simp
  then have hd: "printable (hd ?t)"
    using decimal_text_ends(2)[OF d] by (simp add: is_digit_printable)
  have tr: "trim ?t = ?t"
    using ne hd la unit_letter_facts by (intro trim_printable) simp_all
  have nn: "\<not> numeric_re ?t"
    unfolding t by (simp add: numeric_re_def match_decimal_valid[OF d c])
  have nc: "CHR '':'' \<notin> set ?t"
    using unit_re_unit_text[OF v l] by (rule unit_re_no_colon)
  then have cb: "clock_branch ?t = None" by (simp add: clock_branch_def)
  show ?thesis
    unfolding parseTimeToSeconds_def Let_def tr
    using ne nn cb by (simp add: unit_branch_unit_text[OF v l])
qed

lemma unit_text_parse:
  assumes v: "valid_part h" "valid_part m" "valid_part s"
    and l: "uh = CHR ''h'' \<or> uh = CHR ''H''" "um = CHR ''m'' \<or> um = CHR ''M''"
      "us = CHR ''s'' \<or> us = CHR ''S''"
    and pos: "js_gt (unit_total h m s) (Finite 0)"
  shows "parseTimeToSeconds (unit_text uh um us h m s) = Inr (unit_total h m s)"
proof -
  have some: "h \<noteq> None \<or> m \<noteq> None \<or> s \<noteq> None"
  proof (rule ccontr)
    assume "\<not> (h \<noteq> None \<or> m \<noteq> None \<or> s \<noteq> None)"
    then have "h = None \<and> m = None \<and> s = None" by blast
    then have "unit_total h m s = Finite 0" by (simp add: unit_total_none)
    with pos show False by simp
  qed
  from unit_text_branches[OF v l some] pos show ?thesis by simp
qed

text \<open>Whole parts: the total is the exact weighted sum as long as it is below \<open>2 ^ 53\<close>.\<close>

lemma whole_part_value:
  "whole_part p \<Longrightarrow> \<exists>n. part_value p = of_int n \<and> 0 \<le> n \<and> valid_part p"
proof (cases p)
  case None
  then show ?thesis by (intro exI[of _ 0]) (simp add: part_value_def valid_part_def)
next
  case (Some d)
  assume "whole_part p"
  with Some have w: "whole_decimal d" by (simp add: whole_part_def)
  from whole_decimal_value[OF w] w Some show ?thesis
    by (intro exI[of _ "digits_val (fst d)"])
      (simp add: part_value_def valid_part_def whole_decimal_def)
qed

lemma unit_total_whole:
  assumes "whole_part h" "whole_part m" "whole_part s" "unit_sum h m s < 2 ^ 53"
  shows "unit_total h m s = Finite (unit_sum h m s)"
proof -
  from whole_part_value[OF assms(1)] obtain i where i: "part_value h = of_int i" "0 \<le> i" by blast
  from whole_part_value[OF assms(2)] obtain j where j: "part_value m = of_int j" "0 \<le> j" by blast
  from whole_part_value[OF assms(3)] obtain k where k: "part_value s = of_int k" "0 \<le> k" by blast
  have s: "unit_sum h m s = of_int (i * 3600 + j * 60 + k)"
    by (simp add: unit_sum_def i j k)
  with assms(4) have "(of_int (i * 3600 + j * 60 + k) :: rat) < of_int (2 ^ 53)" by simp
  then have b: "i * 3600 + j * 60 + k < 2 ^ 53" by (simp only: of_int_less_iff)
  have "\<bar>i\<bar> < 2 ^ 53" "\<bar>j\<bar> < 2 ^ 53" "\<bar>k\<bar> < 2 ^ 53" using i j k b by simp_all
  then have n: "part_number h = Finite (of_int i)" "part_number m = Finite (of_int j)"
    "part_number s = Finite (of_int k)"
    by (simp_all add: part_number_def i j k round_double_int)
  have "unit_total h m s = Finite (of_int (i * 3600 + j * 60 + k))"
    unfolding unit_total_def n using i(2) j(2) k(2) b by (rule whole_total3)
  then show ?thesis by (simp only: s)
qed

lemma unit_text_parse_whole:
  assumes w: "whole_part h" "whole_part m" "whole_part s"
    and l: "uh = CHR ''h'' \<or> uh = CHR ''H''" "um = CHR ''m'' \<or> um = CHR ''M''"
      "us = CHR ''s'' \<or> us = CHR ''S''"
    and pos: "0 < unit_sum h m s" and b: "unit_sum h m s < 2 ^ 53"
  shows "parseTimeToSeconds (unit_text uh um us h m s) = Inr (Finite (unit_sum h m s))"
proof -
  have v: "valid_part h" "valid_part m" "valid_part s"
    using whole_part_value w by blast+
  have t: "unit_total h m s = Finite (unit_sum h m s)" using w b by (rule unit_total_whole)
  then have "js_gt (unit_total h m s) (Finite 0)" using pos by simp
  from unit_text_parse[OF v l this] t show ?thesis by simp
qed
subsection \<open>The weighted sum and the field arithmetic\<close>

text \<open>
  With the number read from "2.05" (the double nearest to 2.05, which is below it), the
  expression "2.05m" gives the double 122.99999999999999 and not 123, which is written
  00:02:02 and not 00:02:03. A part below \<open>2 ^ -1075\<close> is read as 0, so a unit
  expression whose only part is 1e-324 seconds has a positive weighted sum and is refused.
\<close>

lemma tiny_part:
  "part_value (Some (''0'', replicate 323 CHR ''0'' @ ''1'')) = 1 / 10 ^ 324"
  by (simp add: part_value_def decimal_value_def dec_val_def digits_val_zeros)
    (simp add: digits_val_def digit_val_def)

lemma tiny_part_number: "part_number (Some (''0'', replicate 323 CHR ''0'' @ ''1'')) = Finite 0"
proof -
  have "(1 / 10 ^ 324 :: rat) < pow2 (- 1075)" by (simp add: pow2_def)
  moreover have "(0::rat) < 1 / 10 ^ 324" by simp
  ultimately have "round_double (1 / 10 ^ 324) = Finite 0" by (intro round_double_underflow)
  then show ?thesis by (simp only: part_number_def tiny_part)
qed

theorem unit_expression_rounded:
  "valid_part (Some (''2'', ''05''))
   \<and> unit_text CHR ''h'' CHR ''m'' CHR ''s'' None (Some (''2'', ''05'')) None = ''2.05m''
   \<and> unit_sum None (Some (''2'', ''05'')) None = 123
   \<and> parseTimeToSeconds ''2.05m'' = Inr (Finite (8655355533852671 / 70368744177664))
   \<and> (8655355533852671 / 70368744177664 :: rat) < 123
   \<and> secondsToHms (Finite (8655355533852671 / 70368744177664)) = ''00:02:02''
   \<and> secondsToHms (Finite 123) = ''00:02:03''
   \<and> valid_part (Some (''0'', replicate 323 CHR ''0'' @ ''1''))
   \<and> 0 < unit_sum None None (Some (''0'', replicate 323 CHR ''0'' @ ''1''))
   \<and> parseTimeToSeconds
         (unit_text CHR ''h'' CHR ''m'' CHR ''s'' None None (Some (''0'', replicate 323 CHR ''0'' @ ''1'')))
       = Inl (Error (''Unsupported time format: '' @
           unit_text CHR ''h'' CHR ''m'' CHR ''s'' None None (Some (''0'', replicate 323 CHR ''0'' @ ''1''))))"
proof -
  let ?p = "Some (''0'', replicate 323 CHR ''0'' @ ''1'')"
  have a1: "valid_part (Some (''2'', ''05''))" by code_simp
  have a2: "unit_text CHR ''h'' CHR ''m'' CHR ''s'' None (Some (''2'', ''05'')) None = ''2.05m''"
    by code_simp
  have a3: "unit_sum None (Some (''2'', ''05'')) None = 123" by code_simp
  have a4: "parseTimeToSeconds ''2.05m'' = Inr (Finite (8655355533852671 / 70368744177664))"
    by code_simp
  have a5: "(8655355533852671 / 70368744177664 :: rat) < 123" by simp
  have a6: "secondsToHms (Finite (8655355533852671 / 70368744177664)) = ''00:02:02''" by code_simp
  have a7: "secondsToHms (Finite 123) = ''00:02:03''" by code_simp
  have b1: "valid_part ?p"
    by (simp add: valid_part_def valid_decimal_def is_digit_def list_all_iff)
  have b2: "0 < unit_sum None None ?p"
    by (simp only: unit_sum_def tiny_part) (simp add: part_value_def)
  have n: "valid_part None" by (simp add: valid_part_def)
  have t: "unit_total None None ?p = Finite 0"
    by (simp add: unit_total_def tiny_part_number)
      (simp add: part_number_def part_value_def round_double_zero)
  have b3: "parseTimeToSeconds (unit_text CHR ''h'' CHR ''m'' CHR ''s'' None None ?p)
       = Inl (Error (''Unsupported time format: '' @ unit_text CHR ''h'' CHR ''m'' CHR ''s'' None None ?p))"
    using unit_text_branches[OF n n b1, of "CHR ''h''" "CHR ''m''" "CHR ''s''"] t by simp
  from a1 a2 a3 a4 a5 a6 a7 b1 b2 b3 show ?thesis by blast
qed

text \<open>
  C7. For every valid compound unit expression (an optional decimal with the
  letter h, then one with m, then one with s, the letters in either case) whose total
  hours * 3600 + minutes * 60 + seconds, computed in the arithmetic of the numbers with
  each part read as the nearest double, is strictly positive, \<open>parseTimeToSeconds\<close>
  returns that total; when the parts are whole numbers and the weighted sum is positive
  and below \<open>2 ^ 53\<close>, that is the exact weighted sum. For every clock expression of two
  or three valid decimals that are read as finite numbers it returns the field arithmetic
  in the arithmetic of the numbers, and the exact value for whole fields with a result
  below \<open>2 ^ 53\<close>. "1h2m3s" gives 3723, "2:10" gives 130 and the empty string fails.
\<close>

theorem unit_sum_and_clock_arithmetic:
  "(valid_part h \<and> valid_part m \<and> valid_part s \<and>
      (uh = CHR ''h'' \<or> uh = CHR ''H'') \<and> (um = CHR ''m'' \<or> um = CHR ''M'') \<and>
      (us = CHR ''s'' \<or> us = CHR ''S'') \<and> js_gt (unit_total h m s) (Finite 0)
      \<longrightarrow> parseTimeToSeconds (unit_text uh um us h m s) = Inr (unit_total h m s))
   \<and> (whole_part h' \<and> whole_part m' \<and> whole_part s' \<and>
      (uh' = CHR ''h'' \<or> uh' = CHR ''H'') \<and> (um' = CHR ''m'' \<or> um' = CHR ''M'') \<and>
      (us' = CHR ''s'' \<or> us' = CHR ''S'') \<and>
      0 < unit_sum h' m' s' \<and> unit_sum h' m' s' < 2 ^ 53
      \<longrightarrow> parseTimeToSeconds (unit_text uh' um' us' h' m' s') = Inr (Finite (unit_sum h' m' s')))
   \<and> (valid_decimal a \<and> valid_decimal b \<and>
      isFinite (decimal_number a) \<and> isFinite (decimal_number b)
      \<longrightarrow> parseTimeToSeconds (clock_text [a, b]) =
          Inr (clock_total2 (decimal_number a) (decimal_number b)))
   \<and> (valid_decimal a' \<and> valid_decimal b' \<and> valid_decimal c' \<and>
      isFinite (decimal_number a') \<and> isFinite (decimal_number b') \<and> isFinite (decimal_number c')
      \<longrightarrow> parseTimeToSeconds (clock_text [a', b', c']) =
          Inr (clock_total3 (decimal_number a') (decimal_number b') (decimal_number c')))
   \<and> (whole_decimal d \<and> whole_decimal e \<and> decimal_value d * 60 + decimal_value e < 2 ^ 53
      \<longrightarrow> parseTimeToSeconds (clock_text [d, e]) =
          Inr (Finite (decimal_value d * 60 + decimal_value e)))
   \<and> (whole_decimal d' \<and> whole_decimal e' \<and> whole_decimal f' \<and>
      decimal_value d' * 3600 + decimal_value e' * 60 + decimal_value f' < 2 ^ 53
      \<longrightarrow> parseTimeToSeconds (clock_text [d', e', f']) =
          Inr (Finite (decimal_value d' * 3600 + decimal_value e' * 60 + decimal_value f')))
   \<and> parseTimeToSeconds ''1h2m3s'' = Inr (Finite 3723)
   \<and> parseTimeToSeconds ''2:10'' = Inr (Finite 130)
   \<and> parseTimeToSeconds [] = Inl (Error ''Time is empty'')"
proof (intro conjI impI)
  show "parseTimeToSeconds ''1h2m3s'' = Inr (Finite 3723)" by code_simp
  show "parseTimeToSeconds ''2:10'' = Inr (Finite 130)" by code_simp
  show "parseTimeToSeconds [] = Inl (Error ''Time is empty'')" by code_simp
qed (blast intro: unit_text_parse unit_text_parse_whole clock_text_two clock_text_three
    clock_text_two_whole clock_text_three_whole)+

text \<open>
  The statement at "1.5H30m" and "1h2m3s", at "2:10.25" and "07:2:10.25", and at "90:75"
  and "100:75:90".
\<close>

theorem unit_sum_and_clock_arithmetic_witness:
  "valid_part (Some (''1'', ''5'')) \<and> valid_part (Some (''30'', [])) \<and> valid_part None
   \<and> unit_text CHR ''H'' CHR ''m'' CHR ''s'' (Some (''1'', ''5'')) (Some (''30'', [])) None = ''1.5H30m''
   \<and> unit_total (Some (''1'', ''5'')) (Some (''30'', [])) None = Finite 7200
   \<and> js_gt (unit_total (Some (''1'', ''5'')) (Some (''30'', [])) None) (Finite 0)
   \<and> parseTimeToSeconds (unit_text CHR ''H'' CHR ''m'' CHR ''s'' (Some (''1'', ''5'')) (Some (''30'', [])) None)
       = Inr (unit_total (Some (''1'', ''5'')) (Some (''30'', [])) None)
   \<and> whole_part (Some (''1'', [])) \<and> whole_part (Some (''2'', [])) \<and> whole_part (Some (''3'', []))
   \<and> unit_text CHR ''h'' CHR ''m'' CHR ''s'' (Some (''1'', [])) (Some (''2'', [])) (Some (''3'', [])) = ''1h2m3s''
   \<and> unit_sum (Some (''1'', [])) (Some (''2'', [])) (Some (''3'', [])) = 3723
   \<and> parseTimeToSeconds (unit_text CHR ''h'' CHR ''m'' CHR ''s'' (Some (''1'', [])) (Some (''2'', [])) (Some (''3'', [])))
       = Inr (Finite (unit_sum (Some (''1'', [])) (Some (''2'', [])) (Some (''3'', []))))
   \<and> valid_decimal (''2'', []) \<and> valid_decimal (''10'', ''25'') \<and> valid_decimal (''07'', [])
   \<and> decimal_number (''2'', []) = Finite 2 \<and> decimal_number (''10'', ''25'') = Finite (41 / 4)
   \<and> decimal_number (''07'', []) = Finite 7
   \<and> clock_text [(''2'', []), (''10'', ''25'')] = ''2:10.25''
   \<and> parseTimeToSeconds (clock_text [(''2'', []), (''10'', ''25'')])
       = Inr (clock_total2 (decimal_number (''2'', [])) (decimal_number (''10'', ''25'')))
   \<and> clock_text [(''07'', []), (''2'', []), (''10'', ''25'')] = ''07:2:10.25''
   \<and> parseTimeToSeconds (clock_text [(''07'', []), (''2'', []), (''10'', ''25'')])
       = Inr (clock_total3 (decimal_number (''07'', [])) (decimal_number (''2'', []))
                (decimal_number (''10'', ''25'')))
   \<and> whole_decimal (''90'', []) \<and> whole_decimal (''75'', []) \<and> whole_decimal (''100'', [])
   \<and> clock_text [(''90'', []), (''75'', [])] = ''90:75''
   \<and> parseTimeToSeconds (clock_text [(''90'', []), (''75'', [])])
       = Inr (Finite (decimal_value (''90'', []) * 60 + decimal_value (''75'', [])))
   \<and> clock_text [(''100'', []), (''75'', []), (''90'', [])] = ''100:75:90''
   \<and> parseTimeToSeconds (clock_text [(''100'', []), (''75'', []), (''90'', [])])
       = Inr (Finite (decimal_value (''100'', []) * 3600 + decimal_value (''75'', []) * 60
            + decimal_value (''90'', [])))"
proof -
  have v: "valid_part (Some (''1'', ''5''))" "valid_part (Some (''30'', []))" "valid_part None"
    by code_simp+
  have t: "unit_text CHR ''H'' CHR ''m'' CHR ''s'' (Some (''1'', ''5'')) (Some (''30'', [])) None = ''1.5H30m''"
    by code_simp
  have u: "unit_total (Some (''1'', ''5'')) (Some (''30'', [])) None = Finite 7200" by code_simp
  have p: "js_gt (unit_total (Some (''1'', ''5'')) (Some (''30'', [])) None) (Finite 0)"
    by (simp add: u)
  have w: "whole_part (Some (''1'', []))" "whole_part (Some (''2'', []))" "whole_part (Some (''3'', []))"
    by code_simp+
  have t': "unit_text CHR ''h'' CHR ''m'' CHR ''s'' (Some (''1'', [])) (Some (''2'', [])) (Some (''3'', [])) = ''1h2m3s''"
    by code_simp
  have u': "unit_sum (Some (''1'', [])) (Some (''2'', [])) (Some (''3'', [])) = 3723" by code_simp
  have p': "0 < unit_sum (Some (''1'', [])) (Some (''2'', [])) (Some (''3'', []))"
    "unit_sum (Some (''1'', [])) (Some (''2'', [])) (Some (''3'', [])) < 2 ^ 53"
    by (simp_all add: u')
  have d: "valid_decimal (''2'', [])" "valid_decimal (''10'', ''25'')" "valid_decimal (''07'', [])"
    by code_simp+
  have n: "decimal_number (''2'', []) = Finite 2" "decimal_number (''10'', ''25'') = Finite (41 / 4)"
    "decimal_number (''07'', []) = Finite 7"
    by code_simp+
  have f: "isFinite (decimal_number (''2'', []))" "isFinite (decimal_number (''10'', ''25''))"
    "isFinite (decimal_number (''07'', []))"
    by (simp_all add: n)
  have c2: "clock_text [(''2'', []), (''10'', ''25'')] = ''2:10.25''" by code_simp
  have c3: "clock_text [(''07'', []), (''2'', []), (''10'', ''25'')] = ''07:2:10.25''" by code_simp
  have wd: "whole_decimal (''90'', [])" "whole_decimal (''75'', [])" "whole_decimal (''100'', [])"
    by code_simp+
  have dv: "decimal_value (''90'', []) = 90" "decimal_value (''75'', []) = 75"
    "decimal_value (''100'', []) = 100"
    by code_simp+
  have b2: "decimal_value (''90'', []) * 60 + decimal_value (''75'', []) < 2 ^ 53"
    by (simp add: dv)
  have b3: "decimal_value (''100'', []) * 3600 + decimal_value (''75'', []) * 60
      + decimal_value (''90'', []) < 2 ^ 53"
    by (simp add: dv)
  have c4: "clock_text [(''90'', []), (''75'', [])] = ''90:75''" by code_simp
  have c5: "clock_text [(''100'', []), (''75'', []), (''90'', [])] = ''100:75:90''" by code_simp
  note inst = unit_sum_and_clock_arithmetic[of "Some (''1'', ''5'')" "Some (''30'', [])" None
      "CHR ''H''" "CHR ''m''" "CHR ''s''"
      "Some (''1'', [])" "Some (''2'', [])" "Some (''3'', [])" "CHR ''h''" "CHR ''m''" "CHR ''s''"
      "(''2'', [])" "(''10'', ''25'')"
      "(''07'', [])" "(''2'', [])" "(''10'', ''25'')"
      "(''90'', [])" "(''75'', [])"
      "(''100'', [])" "(''75'', [])" "(''90'', [])"]
  from inst v p have r1: "parseTimeToSeconds (unit_text CHR ''H'' CHR ''m'' CHR ''s'' (Some (''1'', ''5'')) (Some (''30'', [])) None)
       = Inr (unit_total (Some (''1'', ''5'')) (Some (''30'', [])) None)" by blast
  from inst w p' have r2: "parseTimeToSeconds (unit_text CHR ''h'' CHR ''m'' CHR ''s'' (Some (''1'', [])) (Some (''2'', [])) (Some (''3'', [])))
       = Inr (Finite (unit_sum (Some (''1'', [])) (Some (''2'', [])) (Some (''3'', []))))" by blast
  from inst d f have r3: "parseTimeToSeconds (clock_text [(''2'', []), (''10'', ''25'')])
       = Inr (clock_total2 (decimal_number (''2'', [])) (decimal_number (''10'', ''25'')))" by blast
  from inst d f have r4: "parseTimeToSeconds (clock_text [(''07'', []), (''2'', []), (''10'', ''25'')])
       = Inr (clock_total3 (decimal_number (''07'', [])) (decimal_number (''2'', []))
                (decimal_number (''10'', ''25'')))" by blast
  from inst wd b2 have r5: "parseTimeToSeconds (clock_text [(''90'', []), (''75'', [])])
       = Inr (Finite (decimal_value (''90'', []) * 60 + decimal_value (''75'', [])))" by blast
  from inst wd b3 have r6: "parseTimeToSeconds (clock_text [(''100'', []), (''75'', []), (''90'', [])])
       = Inr (Finite (decimal_value (''100'', []) * 3600 + decimal_value (''75'', []) * 60
            + decimal_value (''90'', [])))" by blast
  from v t u p r1 w t' u' r2 d n c2 r3 c3 r4 wd c4 r5 c5 r6 show ?thesis by blast
qed
subsection \<open>The formatter\<close>

lemma digit_char_of:
  "k < 10 \<Longrightarrow> is_digit (char_of (48 + k)) \<and> digit_val (char_of (48 + k)) = int k"
  by (simp add: is_digit_def digit_val_def of_char_int)

lemma digits_of_digits: "list_all is_digit (digits_of n) \<and> digits_of n \<noteq> []"
proof (induction n rule: digits_of.induct)
  case (1 n)
  show ?case
  proof (cases "n < 10")
    case True
    then have "nat n < 10" by simp
    from digit_char_of[OF this] True show ?thesis
      by (subst digits_of.simps, subst (2) digits_of.simps) simp
  next
    case False
    then have "nat (n mod 10) < 10" by simp
    from digit_char_of[OF this] 1 False show ?thesis
      by (subst digits_of.simps, subst (2) digits_of.simps) simp
  qed
qed

lemma digits_val_digits_of: "0 \<le> n \<Longrightarrow> digits_val (digits_of n) = n"
proof (induction n rule: digits_of.induct)
  case (1 n)
  show ?case
  proof (cases "n < 10")
    case True
    with 1 have "nat n < 10" by simp
    from digit_char_of[OF this] True 1(2) show ?thesis
      by (subst digits_of.simps) (simp add: digits_val_def)
  next
    case False
    then have "nat (n mod 10) < 10" by simp
    from digit_char_of[OF this] 1 False show ?thesis
      by (subst digits_of.simps) (simp add: digits_val_snoc)
  qed
qed

lemma length_digits_of_small: "n < 100 \<Longrightarrow> length (digits_of n) \<le> 2"
  by (subst digits_of.simps, subst digits_of.simps) simp

lemma padStart2_facts:
  assumes "list_all is_digit ds" "ds \<noteq> []"
  shows "whole_decimal (padStart2 ds, [])" "decimal_value (padStart2 ds, []) = of_int (digits_val ds)"
    "decimal_text (padStart2 ds) [] = padStart2 ds" "2 \<le> length (padStart2 ds)"
    "length ds \<le> 2 \<Longrightarrow> length (padStart2 ds) = 2"
proof -
  have z: "is_digit CHR ''0''" by (simp add: is_digit_def)
  show "whole_decimal (padStart2 ds, [])"
    using assms z by (auto simp: whole_decimal_def valid_decimal_def padStart2_def list_all_iff)
  show "decimal_value (padStart2 ds, []) = of_int (digits_val ds)"
    by (simp add: decimal_value_def dec_val_def padStart2_def digits_val_zeros digits_val_def[of "[]"])
  show "decimal_text (padStart2 ds) [] = padStart2 ds" by (simp add: decimal_text_def)
  show "2 \<le> length (padStart2 ds)" by (simp add: padStart2_def)
  show "length ds \<le> 2 \<Longrightarrow> length (padStart2 ds) = 2" by (simp add: padStart2_def)
qed

text \<open>
  Below \<open>2 ^ 53\<close> seconds the two rounded quotients have the floors of the exact ones,
  and the hours are below 1e21, so the three fields are written with their digits.
\<close>

lemma hms_of_int_fields:
  assumes "0 \<le> n" "n < 2 ^ 53"
  shows "hms_of_int n =
    padStart2 (digits_of (n div 3600)) @ '':'' @ padStart2 (digits_of ((n mod 3600) div 60)) @ '':''
      @ padStart2 (digits_of (n mod 60))"
proof -
  have h: "\<lfloor>double_value (of_int n / 3600)\<rfloor> = n div 3600"
    using floor_double_value_div[of n 3600] assms by simp
  have m: "\<lfloor>double_value (of_int (n mod 3600) / 60)\<rfloor> = (n mod 3600) div 60"
    using floor_double_value_div[of "n mod 3600" 60] by simp
  have "3600 * (n div 3600) + n mod 3600 = n" "0 \<le> n mod 3600" "0 \<le> n div 3600"
    using assms(1) by simp_all
  then have "n div 3600 \<le> n" by linarith
  with assms(2) have "n div 3600 < 10 ^ 21" by simp
  then have s1: "number_to_string (n div 3600) = digits_of (n div 3600)"
    by (simp only: number_to_string_def if_True)
  have big: "(60::int) < 10 ^ 21" by simp
  have "(n mod 3600) div 60 < 60" by simp
  then have "(n mod 3600) div 60 < 10 ^ 21" using big by (rule less_trans)
  then have s2: "number_to_string ((n mod 3600) div 60) = digits_of ((n mod 3600) div 60)"
    by (simp only: number_to_string_def if_True)
  have "n mod 60 < 60" by simp
  then have "n mod 60 < 10 ^ 21" using big by (rule less_trans)
  then have s3: "number_to_string (n mod 60) = digits_of (n mod 60)"
    by (simp only: number_to_string_def if_True)
  show ?thesis by (simp add: hms_of_int_def Let_def h m s1 s2 s3)
qed

lemma hms_of_int_clock_text:
  assumes "0 \<le> n" "n < 2 ^ 53"
  shows "hms_of_int n = clock_text (hms_fields n)"
  by (simp add: hms_of_int_fields[OF assms] hms_fields_def decimal_text_def)

lemma parse_hms_of_int:
  assumes "0 \<le> n" "n < 2 ^ 53"
  shows "parseTimeToSeconds (hms_of_int n) = Inr (Finite (of_int n))"
proof -
  let ?h = "n div 3600" and ?m = "(n mod 3600) div 60" and ?s = "n mod 60"
  note f = padStart2_facts[OF conjunct1[OF digits_of_digits] conjunct2[OF digits_of_digits]]
  have nn: "0 \<le> ?h" "0 \<le> ?m" "0 \<le> ?s" using assms(1) by simp_all
  have "?h * 3600 + (n mod 3600) = n" by simp
  moreover have "?m * 60 + (n mod 3600) mod 60 = n mod 3600" by simp
  moreover have "(n mod 3600) mod 60 = n mod 60"
    by (rule mod_mod_cancel) simp
  ultimately have e: "?h * 3600 + ?m * 60 + ?s = n" by linarith
  have v: "decimal_value (padStart2 (digits_of ?h), []) = of_int ?h"
    "decimal_value (padStart2 (digits_of ?m), []) = of_int ?m"
    "decimal_value (padStart2 (digits_of ?s), []) = of_int ?s"
    using nn by (simp_all add: f(2) digits_val_digits_of)
  have s: "decimal_value (padStart2 (digits_of ?h), []) * 3600
      + decimal_value (padStart2 (digits_of ?m), []) * 60
      + decimal_value (padStart2 (digits_of ?s), []) = of_int n"
  proof -
    have "(of_int ?h * 3600 + of_int ?m * 60 + of_int ?s :: rat) = of_int (?h * 3600 + ?m * 60 + ?s)"
      by simp
    then show ?thesis by (simp only: v e)
  qed
  have b: "decimal_value (padStart2 (digits_of ?h), []) * 3600
      + decimal_value (padStart2 (digits_of ?m), []) * 60
      + decimal_value (padStart2 (digits_of ?s), []) < 2 ^ 53"
  proof -
    have "(of_int n :: rat) < of_int (2 ^ 53)" using assms(2) by (simp only: of_int_less_iff)
    then show ?thesis by (simp only: s) simp
  qed
  have "parseTimeToSeconds (clock_text (hms_fields n)) =
      Inr (Finite (decimal_value (padStart2 (digits_of ?h), []) * 3600
        + decimal_value (padStart2 (digits_of ?m), []) * 60
        + decimal_value (padStart2 (digits_of ?s), [])))"
    unfolding hms_fields_def using f(1) b by (intro clock_text_three_whole)
  then show ?thesis by (simp only: hms_of_int_clock_text[OF assms] s)
qed

lemma secondsToHms_of_int: "0 \<le> n \<Longrightarrow> secondsToHms (Finite (of_int n)) = hms_of_int n"
  by simp

lemma hms_of_int_layout:
  assumes "0 \<le> n" "n < 2 ^ 53"
  shows "\<exists>hh mm ss. hms_of_int n = hh @ CHR '':'' # mm @ CHR '':'' # ss \<and>
      2 \<le> length hh \<and> length mm = 2 \<and> length ss = 2 \<and> list_all is_digit (hh @ mm @ ss)"
proof -
  let ?h = "n div 3600" and ?m = "(n mod 3600) div 60" and ?s = "n mod 60"
  note d = digits_of_digits
  note f = padStart2_facts[OF conjunct1[OF d] conjunct2[OF d]]
  have m: "?m < 100" "?s < 100" by simp_all
  have dg: "list_all is_digit (padStart2 (digits_of k))" for k
    using f(1)[of k] by (simp add: whole_decimal_def valid_decimal_def)
  show ?thesis
    apply (rule exI[of _ "padStart2 (digits_of ?h)"])
    apply (rule exI[of _ "padStart2 (digits_of ?m)"])
    apply (rule exI[of _ "padStart2 (digits_of ?s)"])
    using m by (simp add: hms_of_int_fields[OF assms] f(4) f(5) length_digits_of_small dg)
qed

lemma hms_of_int_zero: "hms_of_int 0 = ''00:00:00''"
  by code_simp

text \<open>
  From 1e21 hours \<open>String\<close> writes the hours in exponent notation: for the double
  nearest to 3.6e24 seconds the first field is 1e+21.
\<close>

lemma secondsToHms_exponent:
  "secondsToHms (Finite 3599999999999999832227840) = ''1e+21:37:20''"
  by code_simp

text \<open>
  From \<open>2 ^ 53\<close> the sum of the three fields is rounded. For 2e17 seconds the text is
  55555555555555:33:20; it is read back as 200000000000000032, the double the sum
  199999999999998016 + 1980 + 20 rounds to, and that value is written 55555555555555:33:52.
\<close>

theorem reformat_changes_large_value:
  "secondsToHms (Finite 200000000000000000) = ''55555555555555:33:20''
   \<and> parseTimeToSeconds ''55555555555555:33:20'' = Inr (Finite 200000000000000032)
   \<and> secondsToHms (Finite 200000000000000032) = ''55555555555555:33:52''
   \<and> secondsToHms (Finite 200000000000000032) \<noteq> secondsToHms (Finite 200000000000000000)"
proof -
  have a: "secondsToHms (Finite 200000000000000000) = ''55555555555555:33:20''" by code_simp
  have b: "parseTimeToSeconds ''55555555555555:33:20'' = Inr (Finite 200000000000000032)"
    by code_simp
  have c: "secondsToHms (Finite 200000000000000032) = ''55555555555555:33:52''" by code_simp
  have d: "secondsToHms (Finite 200000000000000032) \<noteq> secondsToHms (Finite 200000000000000000)"
    unfolding a c by simp
  from a b c d show ?thesis by blast
qed

text \<open>
  C8. For every whole number n from 0 and below \<open>2 ^ 53\<close>, parsing the text
  \<open>secondsToHms\<close> writes for n gives n back, so formatting the parsed value again gives
  the same text. A negative input is clamped to zero, the input is floored to whole
  seconds, and below \<open>2 ^ 53\<close> seconds the output is three fields of digits separated by
  colons, the minutes and seconds of exactly two digits and the hours of at least two.
  \<open>secondsToHms(3723)\<close> is "01:02:03" and \<open>secondsToHms(-5)\<close> is "00:00:00".
\<close>

theorem secondsToHms_reformat:
  "(0 \<le> n \<and> n < 2 ^ 53
      \<longrightarrow> parseTimeToSeconds (secondsToHms (Finite (of_int n))) = Inr (Finite (of_int n)))
   \<and> (0 \<le> n \<and> n < 2 ^ 53
      \<longrightarrow> (case parseTimeToSeconds (secondsToHms (Finite (of_int n))) of
             Inl e \<Rightarrow> None | Inr v \<Rightarrow> Some (secondsToHms v))
           = Some (secondsToHms (Finite (of_int n))))
   \<and> (r < 0 \<longrightarrow> secondsToHms (Finite r) = ''00:00:00'')
   \<and> secondsToHms (Finite r) = secondsToHms (Finite (of_int \<lfloor>r\<rfloor>))
   \<and> (r < 2 ^ 53
      \<longrightarrow> (\<exists>hh mm ss. secondsToHms (Finite r) = hh @ CHR '':'' # mm @ CHR '':'' # ss \<and>
             2 \<le> length hh \<and> length mm = 2 \<and> length ss = 2 \<and>
             list_all is_digit (hh @ mm @ ss)))
   \<and> secondsToHms (Finite 3723) = ''01:02:03''
   \<and> secondsToHms (Finite (- 5)) = ''00:00:00''"
proof (intro conjI impI)
  show p: "parseTimeToSeconds (secondsToHms (Finite (of_int n))) = Inr (Finite (of_int n))"
    if "0 \<le> n \<and> n < 2 ^ 53"
    using that by (simp only: secondsToHms_of_int parse_hms_of_int)
  show "(case parseTimeToSeconds (secondsToHms (Finite (of_int n))) of
         Inl e \<Rightarrow> None | Inr v \<Rightarrow> Some (secondsToHms v))
       = Some (secondsToHms (Finite (of_int n)))"
    if "0 \<le> n \<and> n < 2 ^ 53"
    unfolding p[OF that] by simp
  show "secondsToHms (Finite r) = ''00:00:00''" if "r < 0"
  proof -
    from that have "\<lfloor>r\<rfloor> \<le> 0" by (simp add: floor_le_iff)
    then have "max 0 \<lfloor>r\<rfloor> = 0" by simp
    then show ?thesis by (simp only: secondsToHms.simps hms_of_int_zero)
  qed
  show "secondsToHms (Finite r) = secondsToHms (Finite (of_int \<lfloor>r\<rfloor>))" by simp
  show "\<exists>hh mm ss. secondsToHms (Finite r) = hh @ CHR '':'' # mm @ CHR '':'' # ss \<and>
         2 \<le> length hh \<and> length mm = 2 \<and> length ss = 2 \<and> list_all is_digit (hh @ mm @ ss)"
    if "r < 2 ^ 53"
  proof -
    have "r < of_int (2 ^ 53)" using that by simp
    then have "\<lfloor>r\<rfloor> < 2 ^ 53" by (simp only: floor_less_iff)
    then have "0 \<le> max 0 \<lfloor>r\<rfloor>" "max 0 \<lfloor>r\<rfloor> < 2 ^ 53" by simp_all
    then show ?thesis unfolding secondsToHms.simps by (rule hms_of_int_layout)
  qed
  show "secondsToHms (Finite 3723) = ''01:02:03''" by code_simp
  show "secondsToHms (Finite (- 5)) = ''00:00:00''" by code_simp
qed

text \<open>The statement at 754 seconds, at minus a half and at 754.9 seconds.\<close>

theorem secondsToHms_reformat_witness:
  "((0::int) \<le> 754 \<and> (754::int) < 2 ^ 53)
   \<and> ((- 1 / 2 :: rat) < 0 \<and> secondsToHms (Finite (- 1 / 2)) = ''00:00:00'')
   \<and> secondsToHms (Finite 754) = ''00:12:34''
   \<and> parseTimeToSeconds ''00:12:34'' = Inr (Finite 754)
   \<and> (7549 / 10 :: rat) < 2 ^ 53
   \<and> (\<exists>hh mm ss. secondsToHms (Finite (7549 / 10)) = hh @ CHR '':'' # mm @ CHR '':'' # ss \<and>
         2 \<le> length hh \<and> length mm = 2 \<and> length ss = 2 \<and> list_all is_digit (hh @ mm @ ss))"
proof -
  have b: "(0::int) \<le> 754 \<and> (754::int) < 2 ^ 53" by simp
  have h: "(- 1 / 2 :: rat) < 0" by simp
  have g: "(7549 / 10 :: rat) < 2 ^ 53" by simp
  have f: "secondsToHms (Finite 754) = ''00:12:34''" by code_simp
  note inst = secondsToHms_reformat[of 754 "- 1 / 2"]
  note inst2 = secondsToHms_reformat[of 754 "7549 / 10"]
  from inst h have a: "secondsToHms (Finite (- 1 / 2)) = ''00:00:00''" by blast
  from inst b have "parseTimeToSeconds (secondsToHms (Finite (of_int 754))) = Inr (Finite (of_int 754))"
    by blast
  then have "parseTimeToSeconds (secondsToHms (Finite 754)) = Inr (Finite 754)"
    by (simp only: of_int_numeral)
  with f have c: "parseTimeToSeconds ''00:12:34'' = Inr (Finite 754)" by (simp only:)
  from inst2 g have l: "\<exists>hh mm ss. secondsToHms (Finite (7549 / 10)) = hh @ CHR '':'' # mm @ CHR '':'' # ss \<and>
         2 \<le> length hh \<and> length mm = 2 \<and> length ss = 2 \<and> list_all is_digit (hh @ mm @ ss)"
    by blast
  from b h a f c g l show ?thesis by blast
qed

subsection \<open>The sign of the result\<close>

text \<open>Trimming and splitting only remove characters; a number read without a minus sign is not negative.\<close>

lemma strip_tokens_drop: "\<exists>k. strip_tokens toks s = drop k s"
proof (induction toks s rule: strip_tokens.induct)
  case (1 toks s)
  show ?case
  proof (cases "tok_len toks s = 0")
    case True
    then have "strip_tokens toks s = drop 0 s" by (subst strip_tokens.simps) simp
    then show ?thesis by blast
  next
    case False
    from 1[OF False] obtain k where "strip_tokens toks (drop (tok_len toks s) s) = drop k (drop (tok_len toks s) s)"
      by blast
    moreover have "strip_tokens toks s = strip_tokens toks (drop (tok_len toks s) s)"
      using False by (subst strip_tokens.simps) simp
    ultimately have "strip_tokens toks s = drop (k + tok_len toks s) s" by simp
    then show ?thesis by blast
  qed
qed

lemma set_trimStart: "set (trimStart s) \<subseteq> set s"
  using strip_tokens_drop[of ws_tokens s] unfolding trimStart_def by (auto dest: in_set_dropD)

lemma set_trimEnd: "set (trimEnd s) \<subseteq> set s"
proof -
  from strip_tokens_drop[of "map rev ws_tokens" "rev s"] obtain k where
    "strip_tokens (map rev ws_tokens) (rev s) = drop k (rev s)" by blast
  then have "set (trimEnd s) = set (drop k (rev s))" by (simp add: trimEnd_def)
  also have "\<dots> \<subseteq> set (rev s)" by (rule set_drop_subset)
  finally show ?thesis by simp
qed

lemma set_trim: "set (trim s) \<subseteq> set s"
  using set_trimStart[of s] set_trimEnd[of "trimStart s"] by (auto simp: trim_def)

lemma split_on_nonempty: "split_on d s \<noteq> []"
  by (induction s) auto

lemma set_split_on: "p \<in> set (split_on d s) \<Longrightarrow> set p \<subseteq> set s"
proof (induction s arbitrary: p)
  case Nil
  then show ?case by simp
next
  case (Cons c cs)
  show ?case
  proof (cases "c = d")
    case True
    with Cons show ?thesis by auto
  next
    case False
    obtain q qs where q: "split_on d cs = q # qs"
      using split_on_nonempty[of d cs] by (cases "split_on d cs") auto
    with Cons.prems False have "p = c # q \<or> p \<in> set qs" by simp
    then show ?thesis
    proof
      assume "p = c # q"
      moreover have "set q \<subseteq> set cs" using Cons.IH[of q] q by simp
      ultimately show ?thesis by auto
    next
      assume "p \<in> set qs"
      then have "set p \<subseteq> set cs" using Cons.IH[of p] q by simp
      then show ?thesis by auto
    qed
  qed
qed

lemma dec_val_nonneg: "list_all is_digit ip \<Longrightarrow> list_all is_digit fp \<Longrightarrow> 0 \<le> dec_val ip fp"
  by (simp add: dec_val_def digits_val_nonneg)

lemma pow10_pos: "0 < pow10 e"
  by (simp add: pow10_def)

lemma takeWhile_digits: "list_all is_digit (takeWhile is_digit s)"
  by (metis list_all_iff set_takeWhileD)

lemma parse_unsigned_nonneg: "parse_unsigned s = Some v \<Longrightarrow> 0 \<le> v"
proof -
  assume a: "parse_unsigned s = Some v"
  let ?r1 = "dropWhile is_digit s"
  let ?fp = "case ?r1 of [] \<Rightarrow> [] | c # r \<Rightarrow> if c = CHR ''.'' then takeWhile is_digit r else []"
  have f: "list_all is_digit ?fp" by (simp add: takeWhile_digits split: list.split)
  from a obtain e where "v = dec_val (takeWhile is_digit s) ?fp * pow10 e"
    by (auto simp: parse_unsigned_def Let_def split: if_splits)
  moreover have "0 \<le> dec_val (takeWhile is_digit s) ?fp"
    using takeWhile_digits f by (rule dec_val_nonneg)
  ultimately show ?thesis using pow10_pos[of e] by simp
qed

text \<open>The arithmetic keeps numbers that are not negative so.\<close>

lemma js_gt_nonneg: "js_gt v (Finite 0) \<Longrightarrow> js_nonneg v"
  by (cases v) simp_all

lemma js_mul_nonneg: "0 \<le> x \<Longrightarrow> 0 \<le> c \<Longrightarrow> js_nonneg (js_mul (Finite x) (Finite c))"
  by (simp add: round_double_nonneg)

lemma js_add_nonneg: "js_nonneg a \<Longrightarrow> js_nonneg b \<Longrightarrow> js_nonneg (js_add a b)"
  by (cases a; cases b) (simp_all add: round_double_nonneg)

lemma parseFloat_nonneg:
  assumes "CHR ''-'' \<notin> set s"
  shows "parseFloat s = NaN \<or> js_nonneg (parseFloat s)"
proof -
  let ?t = "trimStart s"
  have nm: "CHR ''-'' \<notin> set ?t" using assms(1) set_trimStart by blast
  then have neg: "(case ?t of [] \<Rightarrow> False | c # r \<Rightarrow> c = CHR ''-'') = False"
    by (cases ?t) auto
  let ?s1 = "case ?t of [] \<Rightarrow> [] | c # r \<Rightarrow> if c = CHR ''-'' \<or> c = CHR ''+'' then r else ?t"
  show ?thesis
  proof (cases "prefix ''Infinity'' ?s1")
    case True
    then have "parseFloat s = PosInfinity" unfolding parseFloat_def Let_def neg by simp
    then show ?thesis by simp
  next
    case False
    show ?thesis
    proof (cases "parse_unsigned ?s1")
      case None
      with False have "parseFloat s = NaN" unfolding parseFloat_def Let_def neg by simp
      then show ?thesis by simp
    next
      case (Some u)
      with False have "parseFloat s = round_double u" unfolding parseFloat_def Let_def neg by simp
      with parse_unsigned_nonneg[OF Some] show ?thesis by (simp add: round_double_nonneg)
    qed
  qed
qed

lemma parseFloat_finite_nonneg:
  "CHR ''-'' \<notin> set s \<Longrightarrow> parseFloat s = Finite v \<Longrightarrow> 0 \<le> v"
  using parseFloat_nonneg[of s] by auto

lemma numeric_re_value:
  assumes "numeric_re t"
  shows "js_nonneg (parseFloat t)"
proof -
  from assms obtain n where "match_decimal t = Some (n, [])"
    by (auto simp: numeric_re_def split: option.splits)
  from match_decimal_shape[OF this] obtain ip fp where
    "ip \<noteq> []" "list_all is_digit ip" "list_all is_digit fp" "t = decimal_text ip fp" by auto
  then show ?thesis using parseFloat_decimal_text dec_val_nonneg round_double_nonneg by simp
qed

lemma unit_branch_positive:
  assumes "unit_branch t = Some tot"
  shows "js_nonneg tot"
proof -
  from assms have "js_gt tot (Finite 0)"
    by (auto simp: unit_branch_def Let_def split: option.splits if_splits)
  then show ?thesis by (rule js_gt_nonneg)
qed

lemma clock_branch_value:
  assumes "clock_branch t = Some (Inr v)" "CHR ''-'' \<notin> set t"
  shows "js_nonneg v"
proof -
  let ?parts = "map trim (split_on CHR '':'' t)"
  have sub: "p \<in> set ?parts \<Longrightarrow> CHR ''-'' \<notin> set p" for p
    using assms(2) set_split_on set_trim by fastforce
  have nn: "p \<in> set ?parts \<Longrightarrow> parseFloat p = Finite x \<Longrightarrow> 0 \<le> x" for p x
    using sub parseFloat_finite_nonneg by blast
  from assms have c: "CHR '':'' \<in> set t"
    by (auto simp: clock_branch_def split: if_splits)
  from assms c have ne: "\<not> list_ex (\<lambda>p. p = []) ?parts"
    by (auto simp: clock_branch_def Let_def split: if_splits)
  from assms c ne consider
    (two) a b where "?parts = [a, b]" "isFinite (parseFloat a)" "isFinite (parseFloat b)"
      "v = js_add (js_mul (parseFloat a) (Finite 60)) (parseFloat b)"
  | (three) a b d where "?parts = [a, b, d]" "isFinite (parseFloat a)" "isFinite (parseFloat b)"
      "isFinite (parseFloat d)"
      "v = js_add (js_add (js_mul (parseFloat a) (Finite 3600)) (js_mul (parseFloat b) (Finite 60)))
             (parseFloat d)"
    unfolding clock_branch_def Let_def
    by (simp only: if_True if_False split: list.splits if_splits) (auto simp: map_eq_Cons_conv)
  then show ?thesis
  proof cases
    case two
    from two(2,3) obtain x y where xy: "parseFloat a = Finite x" "parseFloat b = Finite y"
      by (cases "parseFloat a"; cases "parseFloat b") auto
    have p: "0 \<le> x" "0 \<le> y" using nn[of a x] nn[of b y] two(1) xy by simp_all
    have "js_nonneg (js_add (js_mul (Finite x) (Finite 60)) (Finite y))"
      using p by (intro js_add_nonneg js_mul_nonneg) simp_all
    with two(4) xy show ?thesis by (simp only:)
  next
    case three
    from three(2,3,4) obtain x y z where xy: "parseFloat a = Finite x" "parseFloat b = Finite y"
      "parseFloat d = Finite z"
      by (cases "parseFloat a"; cases "parseFloat b"; cases "parseFloat d") auto
    have p: "0 \<le> x" "0 \<le> y" "0 \<le> z"
      using nn[of a x] nn[of b y] nn[of d z] three(1) xy by simp_all
    have "js_nonneg (js_add (js_add (js_mul (Finite x) (Finite 3600)) (js_mul (Finite y) (Finite 60)))
        (Finite z))"
      using p by (intro js_add_nonneg js_mul_nonneg) simp_all
    with three(5) xy show ?thesis by (simp only:)
  qed
qed

text \<open>
  A value returned for an input without a minus sign is not negative: it is a finite
  number from 0, or the positive infinity when the arithmetic overflows. Only the clock
  branch lets a minus sign through.
\<close>

lemma parseTimeToSeconds_sign:
  assumes "parseTimeToSeconds s = Inr v" "CHR ''-'' \<notin> set s"
  shows "js_nonneg v"
proof -
  let ?t = "trim s"
  from assms have ne: "?t \<noteq> []"
    by (auto simp: parseTimeToSeconds_def Let_def split: if_splits)
  show ?thesis
  proof (cases "numeric_re ?t")
    case True
    with assms ne have "v = parseFloat ?t" by (simp add: parseTimeToSeconds_def Let_def)
    with numeric_re_value[OF True] show ?thesis by simp
  next
    case False
    note nr = False
    show ?thesis
    proof (cases "unit_branch ?t")
      case (Some tot)
      with assms ne nr have "v = tot" by (simp add: parseTimeToSeconds_def Let_def)
      with unit_branch_positive[OF Some] show ?thesis by simp
    next
      case None
      with assms ne nr have "clock_branch ?t = Some (Inr v)"
        by (cases "clock_branch ?t") (auto simp: parseTimeToSeconds_def Let_def)
      moreover have "CHR ''-'' \<notin> set ?t" using assms(2) set_trim[of s] by blast
      ultimately show ?thesis by (rule clock_branch_value)
    qed
  qed
qed

subsection \<open>What the clock branch accepts\<close>

lemma clock_branch_accepts:
  assumes "clock_branch t = Some (Inr v)"
  shows "(length (split_on CHR '':'' t) = 2 \<or> length (split_on CHR '':'' t) = 3)
    \<and> (\<forall>p \<in> set (map trim (split_on CHR '':'' t)). p \<noteq> [] \<and> isFinite (parseFloat p))"
proof -
  let ?parts = "map trim (split_on CHR '':'' t)"
  from assms have c: "CHR '':'' \<in> set t"
    by (auto simp: clock_branch_def split: if_splits)
  from assms c have ne: "\<not> list_ex (\<lambda>p. p = []) ?parts"
    by (auto simp: clock_branch_def Let_def split: if_splits)
  from assms c ne have "(\<exists>a b. map parseFloat ?parts = [a, b] \<and> isFinite a \<and> isFinite b)
      \<or> (\<exists>a b c. map parseFloat ?parts = [a, b, c] \<and> isFinite a \<and> isFinite b \<and> isFinite c)"
    unfolding clock_branch_def Let_def
    by (simp only: if_True if_False split: list.splits if_splits) auto
  then have "(length (map parseFloat ?parts) = 2 \<or> length (map parseFloat ?parts) = 3)
      \<and> (\<forall>x \<in> set (map parseFloat ?parts). isFinite x)"
    by fastforce
  then have len: "length (split_on CHR '':'' t) = 2 \<or> length (split_on CHR '':'' t) = 3"
    and fin: "\<forall>p \<in> set ?parts. isFinite (parseFloat p)"
    by simp_all
  from ne have nn: "\<forall>p \<in> set ?parts. p \<noteq> []"
    unfolding list_ex_iff by blast
  from len fin nn show ?thesis by blast
qed

lemma colon_accepted_fields:
  assumes "CHR '':'' \<in> set (trim s)" "parseTimeToSeconds s = Inr v"
  shows "(length (split_on CHR '':'' (trim s)) = 2 \<or> length (split_on CHR '':'' (trim s)) = 3)
    \<and> (\<forall>p \<in> set (map trim (split_on CHR '':'' (trim s))). p \<noteq> [] \<and> isFinite (parseFloat p))"
proof -
  from assms parse_with_colon[OF assms(1)] have "clock_branch (trim s) = Some (Inr v)"
    by (cases "clock_branch (trim s)") auto
  then show ?thesis by (rule clock_branch_accepts)
qed

lemma colon_empty_field_rejected:
  assumes "CHR '':'' \<in> set (trim s)" "[] \<in> set (map trim (split_on CHR '':'' (trim s)))"
  shows "parseTimeToSeconds s = Inl (Error ''Invalid time format'')"
proof -
  from assms have "clock_branch (trim s) = Some (Inl (Error ''Invalid time format''))"
    by (auto simp: clock_branch_def Let_def list_ex_iff)
  with parse_with_colon[OF assms(1)] show ?thesis by simp
qed

text \<open>
  C5. The value \<open>parseTimeToSeconds\<close> returns is meant to be non-negative, and it is
  for every input without a minus sign (\<open>parseTimeToSeconds_sign\<close>). The clock branch
  reads a field with \<open>parseFloat\<close>, which accepts a sign that the decimal and unit
  branches refuse: "-1:00" is accepted with the value -60, while "-60" is rejected.
\<close>

theorem clock_field_sign_accepted:
  "parseTimeToSeconds ''-1:00'' = Inr (Finite (- 60))
   \<and> parseTimeToSeconds ''-60'' = Inl (Error ''Unsupported time format: -60'')"
  by code_simp

text \<open>
  C6. A colon-separated input with an empty or non-numeric field is meant to be rejected.
  An accepted input has two or three fields, none of them empty
  (\<open>colon_accepted_fields\<close>, \<open>colon_empty_field_rejected\<close>), but the check of a
  field is that \<open>parseFloat\<close> reads a finite number at its start, so the text after that
  number is ignored: "1x:20" is accepted with the value 80, while "1x" alone is rejected.
\<close>

theorem clock_field_trailing_text_accepted:
  "parseTimeToSeconds ''1x:20'' = Inr (Finite 80)
   \<and> parseTimeToSeconds ''1x'' = Inl (Error ''Unsupported time format: 1x'')"
  by code_simp

section \<open>Properties of the clip extraction\<close>

subsection \<open>The argument vector\<close>

lemma js_or_first_present: "first_present [a, b] = (if truthy (js_or a b) then js_or a b else None)"
  by (cases a; cases b) (auto simp: js_or_def truthy_def)

lemma or_default_first_present:
  "or_default (js_or a b) d = (case first_present [a, b] of None \<Rightarrow> d | Some s \<Rightarrow> s)"
  by (cases a; cases b) (auto simp: js_or_def truthy_def or_default_def)

lemma cookie_push:
  "(case js_or a b of None \<Rightarrow> xs | Some c \<Rightarrow> if c = [] then xs else xs @ f c)
    = xs @ when_present (first_present [a, b]) f"
  by (cases a; cases b) (auto simp: js_or_def truthy_def when_present_def)

text \<open>
  C4. The argument vector is a function of the url, the offsets, the format, the credentials,
  the user agent and the environment, in this fixed order: the URL; the format selector; the
  no-playlist, no-progress and newline flags; the keyframes-at-cuts flag; the
  download-sections directive; the output template; the remux argument for mp4 or the merge
  argument for webm; the User-Agent header (the option, else the environment, else the
  default), the Accept-Language and DNT headers; then the Cookie header and the cookies file
  (the option, else the environment), each only when a value is present.
\<close>

theorem buildYtDlpArgs_order:
  "buildYtDlpArgs env opts stem =
     [url opts, ''-f'', ''bv*+ba/b'',
      ''--no-playlist'', ''--no-progress'', ''--newline'',
      ''--force-keyframes-at-cuts'',
      ''--download-sections'',
      ''*'' @ secondsToHms (startSeconds opts) @ ''-'' @ secondsToHms (endSeconds opts),
      ''-o'', stem @ ''.%(ext)s'']
     @ container_args (format opts)
     @ [''--add-header'',
        ''User-Agent: '' @
          (case first_present [userAgent opts, YOUTUBE_USER_AGENT env] of
             None \<Rightarrow> DEFAULT_UA | Some ua \<Rightarrow> ua),
        ''--add-header'', ''Accept-Language: en-US,en;q=0.9'',
        ''--add-header'', ''DNT: 1'']
     @ when_present (first_present [cookieHeader opts, YOUTUBE_COOKIE_HEADER env])
         (\<lambda>c. [''--add-header'', ''Cookie: '' @ c])
     @ when_present (first_present [cookiesTxtPath opts, YT_COOKIES_FILE env])
         (\<lambda>f. [''--cookies'', f])"
proof -
  have c: "container_args (format opts) =
      (if format opts = Some Mp4 then [''--remux-video'', ''mp4'']
       else if format opts = Some Webm then [''--merge-output-format'', ''webm''] else [])"
    by (cases "format opts"; simp add: container_args_def split: format.splits)
  show ?thesis
    unfolding buildYtDlpArgs_def Let_def cookie_push or_default_first_present c
    by simp
qed

text \<open>The vector for a webm request with an environment user agent and both cookie sources.\<close>

theorem buildYtDlpArgs_order_witness:
  "buildYtDlpArgs
     \<lparr>YOUTUBE_USER_AGENT = Some ''UA-env'', YOUTUBE_COOKIE_HEADER = Some ''c=d'',
      YT_COOKIES_FILE = Some ''/c.txt''\<rparr>
     \<lparr>url = ''https://youtu.be/x'', startSeconds = Finite 62, endSeconds = Finite (151 / 2),
      outputDirectory = None, outputBaseName = None, cookieHeader = Some ''a=b'',
      cookiesTxtPath = Some [], format = Some Webm, userAgent = None, timeoutMs = None\<rparr>
     ''/tmp/aiclips/clip''
   = [''https://youtu.be/x'', ''-f'', ''bv*+ba/b'', ''--no-playlist'', ''--no-progress'',
      ''--newline'', ''--force-keyframes-at-cuts'', ''--download-sections'',
      ''*00:01:02-00:01:15'', ''-o'', ''/tmp/aiclips/clip.%(ext)s'',
      ''--merge-output-format'', ''webm'',
      ''--add-header'', ''User-Agent: UA-env'',
      ''--add-header'', ''Accept-Language: en-US,en;q=0.9'',
      ''--add-header'', ''DNT: 1'',
      ''--add-header'', ''Cookie: a=b'',
      ''--cookies'', ''/c.txt'']"
  unfolding buildYtDlpArgs_order by code_simp

subsection \<open>The produced file\<close>

lemma probe_find: "probe fs join dir cands = find (\<lambda>p. p \<in> fs) (map (join dir) cands)"
  by (induction cands) (simp_all add: Let_def)

lemma scan_find:
  "scan join dir base entries = map_option (join dir) (find (prefix (base @ ''.'')) entries)"
  by (induction entries) simp_all

lemma findProducedFile_phases:
  "findProducedFile w fs dir base =
     (case find (\<lambda>p. p \<in> fs) (candidate_paths w dir base) of
        Some p \<Rightarrow> Inr (Some p)
      | None \<Rightarrow>
          (case readdir w dir of
             Inl e \<Rightarrow> Inl e
           | Inr entries \<Rightarrow>
               Inr (map_option (path_join w dir) (find (prefix (base @ ''.'')) entries))))"
  by (simp add: findProducedFile_def probe_find scan_find candidate_paths_def split: sum.splits)

lemma downloadClip_exit_zero:
  assumes "\<not> js_le (endSeconds opts) (startSeconds opts)" "mkdir w (tmpRoot_of w opts) = None"
    "fst (supervised w opts) = Resolved 0"
  shows "outcome (downloadClip w opts) =
     (case findProducedFile w (files_closed w opts) (path_dirname w (stem_of w opts))
             (path_basename w (stem_of w opts)) of
        Inl e \<Rightarrow> Rejected e
      | Inr None \<Rightarrow> Rejected (Error ''Clip produced no output file'')
      | Inr (Some produced) \<Rightarrow>
          Resolved \<lparr>outputPath = produced, stdout = stdout_buf (snd (supervised w opts)),
                    stderr = stderr_buf (snd (supervised w opts))\<rparr>)"
proof -
  obtain ex st where s: "supervised w opts = (ex, st)" by (cases "supervised w opts")
  with assms(3) have ex: "ex = Resolved 0" by simp
  show ?thesis
    unfolding downloadClip_def Let_def s files_closed_def
    using assms(1,2) ex by (simp split: sum.splits option.splits)
qed

text \<open>
  C3. When the subprocess exits with code 0, the produced file is the first path of the
  fixed list (the base name with .mp4, .mkv, .webm, .mov, .m4a, .mp3, in this order) that
  exists; when none exists it is the first entry of the output directory whose name begins
  with the base name and a dot; when the directory has no such entry the call fails with
  "Clip produced no output file" (and a directory that cannot be read fails the call with
  the error of the read). In particular, when the .mkv path exists and the .mp4 path does
  not, the call resolves with the .mkv path.
\<close>

theorem produced_file_resolution:
  "\<not> js_le (endSeconds opts) (startSeconds opts) \<and> mkdir w (tmpRoot_of w opts) = None \<and>
   fst (supervised w opts) = Resolved 0 \<longrightarrow>
   (let dir = path_dirname w (stem_of w opts);
        base = path_basename w (stem_of w opts);
        fs = files_closed w opts;
        st = snd (supervised w opts);
        found = (\<lambda>p. Resolved \<lparr>outputPath = p, stdout = stdout_buf st, stderr = stderr_buf st\<rparr>)
    in outcome (downloadClip w opts) =
         (case find (\<lambda>p. p \<in> fs) (candidate_paths w dir base) of
            Some p \<Rightarrow> found p
          | None \<Rightarrow>
              (case readdir w dir of
                 Inl e \<Rightarrow> Rejected e
               | Inr entries \<Rightarrow>
                   (case find (prefix (base @ ''.'')) entries of
                      Some entry \<Rightarrow> found (path_join w dir entry)
                    | None \<Rightarrow> Rejected (Error ''Clip produced no output file''))))
       \<and> (path_join w dir (base @ ''.mp4'') \<notin> fs \<and> path_join w dir (base @ ''.mkv'') \<in> fs
            \<longrightarrow> outcome (downloadClip w opts) = found (path_join w dir (base @ ''.mkv''))))"
proof (intro impI)
  assume a: "\<not> js_le (endSeconds opts) (startSeconds opts) \<and> mkdir w (tmpRoot_of w opts) = None \<and>
   fst (supervised w opts) = Resolved 0"
  then have e: "outcome (downloadClip w opts) =
     (case findProducedFile w (files_closed w opts) (path_dirname w (stem_of w opts))
             (path_basename w (stem_of w opts)) of
        Inl e \<Rightarrow> Rejected e
      | Inr None \<Rightarrow> Rejected (Error ''Clip produced no output file'')
      | Inr (Some produced) \<Rightarrow>
          Resolved \<lparr>outputPath = produced, stdout = stdout_buf (snd (supervised w opts)),
                    stderr = stderr_buf (snd (supervised w opts))\<rparr>)"
    by (intro downloadClip_exit_zero) simp_all
  show "let dir = path_dirname w (stem_of w opts);
        base = path_basename w (stem_of w opts);
        fs = files_closed w opts;
        st = snd (supervised w opts);
        found = (\<lambda>p. Resolved \<lparr>outputPath = p, stdout = stdout_buf st, stderr = stderr_buf st\<rparr>)
    in outcome (downloadClip w opts) =
         (case find (\<lambda>p. p \<in> fs) (candidate_paths w dir base) of
            Some p \<Rightarrow> found p
          | None \<Rightarrow>
              (case readdir w dir of
                 Inl e \<Rightarrow> Rejected e
               | Inr entries \<Rightarrow>
                   (case find (prefix (base @ ''.'')) entries of
                      Some entry \<Rightarrow> found (path_join w dir entry)
                    | None \<Rightarrow> Rejected (Error ''Clip produced no output file''))))
       \<and> (path_join w dir (base @ ''.mp4'') \<notin> fs \<and> path_join w dir (base @ ''.mkv'') \<in> fs
            \<longrightarrow> outcome (downloadClip w opts) = found (path_join w dir (base @ ''.mkv'')))"
    unfolding Let_def e findProducedFile_phases
    by (auto simp: candidate_paths_def split: option.splits sum.splits)
qed

text \<open>A tool that writes only \<open>clip.mkv\<close> and exits with code 0.\<close>

lemma example_paths:
  "stem_of (world_with run) (clip_opts t) = ''/tmp/aiclips/clip''"
  "tmpRoot_of (world_with run) (clip_opts t) = ''/tmp/aiclips''"
  "path_dirname (world_with run) ''/tmp/aiclips/clip'' = ''/tmp/aiclips''"
  "path_basename (world_with run) ''/tmp/aiclips/clip'' = ''clip''"
  "run_of (world_with run) (clip_opts t) = run"
  by (simp_all add: stem_of_def tmpRoot_of_def baseName_of_def world_with_def clip_opts_def
      or_default_def plain_join_def plain_dirname_def plain_basename_def run_of_def)

theorem produced_file_resolution_witness:
  "\<not> js_le (endSeconds (clip_opts None)) (startSeconds (clip_opts None))
   \<and> mkdir (world_with mkv_run) (tmpRoot_of (world_with mkv_run) (clip_opts None)) = None
   \<and> fst (supervised (world_with mkv_run) (clip_opts None)) = Resolved 0
   \<and> ''/tmp/aiclips/clip.mp4'' \<notin> files_closed (world_with mkv_run) (clip_opts None)
   \<and> ''/tmp/aiclips/clip.mkv'' \<in> files_closed (world_with mkv_run) (clip_opts None)
   \<and> outcome (downloadClip (world_with mkv_run) (clip_opts None)) =
       Resolved \<lparr>outputPath = ''/tmp/aiclips/clip.mkv'', stdout = ''done'', stderr = []\<rparr>"
proof -
  let ?w = "world_with mkv_run" and ?o = "clip_opts None"
  have h1: "\<not> js_le (endSeconds ?o) (startSeconds ?o)" by (simp add: clip_opts_def)
  have h2: "mkdir ?w (tmpRoot_of ?w ?o) = None" by (simp add: world_with_def)
  have sup: "supervised ?w ?o =
      (Resolved 0, \<lparr>stdout_buf = ''done'', stderr_buf = [], killedByTimeout = False, signals = []\<rparr>)"
    unfolding supervised_def example_paths
    by (simp add: mkv_run_def timer_delay_def setTimeout_delay_def TIMEOUT_MAX_def clip_opts_def sup_init_def on_close_def)
  have h3: "fst (supervised ?w ?o) = Resolved 0" by (simp add: sup)
  have fs: "files_closed ?w ?o = {''/tmp/aiclips/clip.mkv''}"
    by (simp add: files_closed_def example_paths) (simp add: world_with_def mkv_run_def)
  have h4: "''/tmp/aiclips/clip.mp4'' \<notin> files_closed ?w ?o" by (simp add: fs)
  have h5: "''/tmp/aiclips/clip.mkv'' \<in> files_closed ?w ?o" by (simp add: fs)
  have j: "path_join ?w ''/tmp/aiclips'' (''clip'' @ ext) = ''/tmp/aiclips/clip'' @ ext" for ext
    by (simp add: world_with_def plain_join_def)
  note r = produced_file_resolution[of ?o ?w, THEN mp, OF conjI[OF h1 conjI[OF h2 h3]],
      unfolded Let_def, THEN conjunct2, THEN mp]
  have prem: "path_join ?w (path_dirname ?w (stem_of ?w ?o)) (path_basename ?w (stem_of ?w ?o) @ ''.mp4'')
        \<notin> files_closed ?w ?o
      \<and> path_join ?w (path_dirname ?w (stem_of ?w ?o)) (path_basename ?w (stem_of ?w ?o) @ ''.mkv'')
        \<in> files_closed ?w ?o"
    unfolding example_paths j fs by simp
  have c: "outcome (downloadClip ?w ?o) =
       Resolved \<lparr>outputPath = ''/tmp/aiclips/clip.mkv'', stdout = ''done'', stderr = []\<rparr>"
    using r[OF prem] unfolding example_paths j sup by simp
  from h1 h2 h3 h4 h5 c show ?thesis by blast
qed

subsection \<open>The timer\<close>









lemma downloadClip_spawned:
  assumes "\<not> js_le (endSeconds opts) (startSeconds opts)" "mkdir w (tmpRoot_of w opts) = None"
  shows "signals_sent (downloadClip w opts) = signals (snd (supervised w opts))"
    and "spawned (downloadClip w opts) = [spawn_args w opts]"
    and "\<And>code. fst (supervised w opts) = Resolved code \<Longrightarrow> code \<noteq> 0 \<Longrightarrow>
      outcome (downloadClip w opts) =
        Rejected (Error
          (let combined = trim (stdout_buf (snd (supervised w opts)) @ [CHR 0x0A] @
                                stderr_buf (snd (supervised w opts)))
           in if combined = [] then ''yt-dlp exited with code '' @ int_to_string code
              else combined))"
proof -
  obtain ex st where s: "supervised w opts = (ex, st)" by (cases "supervised w opts")
  show "signals_sent (downloadClip w opts) = signals (snd (supervised w opts))"
    unfolding downloadClip_def Let_def s using assms by simp
  show "spawned (downloadClip w opts) = [spawn_args w opts]"
    unfolding downloadClip_def Let_def s using assms by simp
  show "outcome (downloadClip w opts) =
        Rejected (Error
          (let combined = trim (stdout_buf (snd (supervised w opts)) @ [CHR 0x0A] @
                                stderr_buf (snd (supervised w opts)))
           in if combined = [] then ''yt-dlp exited with code '' @ int_to_string code
              else combined))"
    if "fst (supervised w opts) = Resolved code" "code \<noteq> 0" for code
    unfolding downloadClip_def Let_def s using assms that s by simp
qed



lemma closes_unsuccessfully_closes: "closes_unsuccessfully ak \<Longrightarrow> closes_after_kill ak"
  by (induction ak rule: closes_after_kill.induct) simp_all





subsection \<open>The timer\<close>




section \<open>Properties of the request handler\<close>

subsection \<open>Authorization\<close>

lemma isYouTubeUrl_allow_listed:
  "isYouTubeUrl srv u \<longleftrightarrow> (\<exists>h. url_hostname srv u = Some h \<and> allow_listed h)"
  by (cases "url_hostname srv u") (auto simp: isYouTubeUrl_def host_matches_def allow_listed_def)

lemma early_run [simp]:
  "response (early srv r) = Some r" "spawned_h (early srv r) = []"
  "files_h (early srv r) = files (world srv)"
  by (simp_all add: early_def)

lemma post_clip_refused:
  assumes "schema_parse srv body = Inr parsed" "\<not> isYouTubeUrl srv (parsed_url parsed)"
  shows "post_clip srv body = early srv (Json 400 [(''error'', ''Only YouTube URLs are supported'')])"
  using assms by (simp add: post_clip_def)

lemma schema_parse_url:
  "schema_parse srv body = Inr parsed \<Longrightarrow> body ''url'' = JString (parsed_url parsed)"
  by (auto simp: schema_parse_def split: jv.splits option.splits prod.splits)

lemma post_clip_no_spawn:
  assumes "\<forall>u. body ''url'' = JString u \<longrightarrow> \<not> isYouTubeUrl srv u"
  shows "spawned_h (post_clip srv body) = []"
proof (cases "schema_parse srv body")
  case (Inl err)
  then show ?thesis by (simp add: post_clip_def)
next
  case (Inr parsed)
  from schema_parse_url[OF Inr] assms have "\<not> isYouTubeUrl srv (parsed_url parsed)" by blast
  from post_clip_refused[OF Inr this] show ?thesis by simp
qed

lemma get_clip_refused:
  assumes "url_hostname srv (query_string q ''url'') = Some h" "\<not> allow_listed h"
  shows "get_clip srv q = early srv (Json 400 [(''error'', ''Only YouTube URLs are supported'')])"
proof -
  from assms have "\<not> isYouTubeUrl srv (query_string q ''url'')"
    by (simp add: isYouTubeUrl_allow_listed)
  with assms(1) show ?thesis by (simp add: get_clip_def Let_def)
qed

lemma get_clip_no_spawn:
  assumes "\<not> isYouTubeUrl srv (query_string q ''url'')"
  shows "spawned_h (get_clip srv q) = []"
  using assms by (cases "url_hostname srv (query_string q ''url'')") (simp_all add: get_clip_def Let_def)

text \<open>
  C9. No subprocess is spawned for a request whose URL has a host name outside the
  allow-list (youtube.com, youtu.be and their subdomains). The response is the
  authorization error, HTTP 400, when the request has passed the validation of its shape:
  for a POST body the schema accepts, and for every GET request whose URL is well-formed.
\<close>

theorem disallowed_host_never_spawns:
  "(schema_parse srv body = Inr parsed \<and> url_hostname srv (parsed_url parsed) = Some h \<and>
      \<not> allow_listed h
      \<longrightarrow> response (post_clip srv body) = Some (Json 400 [(''error'', ''Only YouTube URLs are supported'')])
        \<and> spawned_h (post_clip srv body) = [])
   \<and> (url_hostname srv (query_string q ''url'') = Some h' \<and> \<not> allow_listed h'
      \<longrightarrow> response (get_clip srv q) = Some (Json 400 [(''error'', ''Only YouTube URLs are supported'')])
        \<and> spawned_h (get_clip srv q) = [])
   \<and> (body' ''url'' = JString u \<and> url_hostname srv u = Some h'' \<and> \<not> allow_listed h''
      \<longrightarrow> spawned_h (post_clip srv body') = [])"
proof (intro conjI impI)
  assume a: "schema_parse srv body = Inr parsed \<and> url_hostname srv (parsed_url parsed) = Some h \<and>
      \<not> allow_listed h"
  then have n: "\<not> isYouTubeUrl srv (parsed_url parsed)" by (simp add: isYouTubeUrl_allow_listed)
  from a have p: "schema_parse srv body = Inr parsed" by simp
  show "response (post_clip srv body) = Some (Json 400 [(''error'', ''Only YouTube URLs are supported'')])"
    by (simp add: post_clip_refused[OF p n])
  show "spawned_h (post_clip srv body) = []"
    by (simp add: post_clip_refused[OF p n])
next
  assume a: "url_hostname srv (query_string q ''url'') = Some h' \<and> \<not> allow_listed h'"
  then have e: "get_clip srv q = early srv (Json 400 [(''error'', ''Only YouTube URLs are supported'')])"
    using get_clip_refused[of srv q h'] by blast
  show "response (get_clip srv q) = Some (Json 400 [(''error'', ''Only YouTube URLs are supported'')])"
    by (simp add: e)
  show "spawned_h (get_clip srv q) = []" by (simp add: e)
next
  assume a: "body' ''url'' = JString u \<and> url_hostname srv u = Some h'' \<and> \<not> allow_listed h''"
  then have "\<forall>v. body' ''url'' = JString v \<longrightarrow> \<not> isYouTubeUrl srv v"
    by (simp add: isYouTubeUrl_allow_listed)
  then show "spawned_h (post_clip srv body') = []" by (rule post_clip_no_spawn)
qed

lemma example_host:
  "url_hostname (server_with run) ''https://example.com/v'' = Some ''example.com''"
  "url_hostname (server_with run) ''https://www.youtube.com/watch?v=abc'' = Some ''www.youtube.com''"
  "\<not> allow_listed ''example.com''" "allow_listed ''www.youtube.com''"
  by (simp_all add: server_with_def example_hostname_def allow_listed_def suffix_def)

text \<open>
  The validation comes first: a POST body with a URL of example.com and no \<open>start\<close> is
  answered by the catch handler with the schema's error, HTTP 500, not with HTTP 400.
\<close>

theorem disallowed_host_missing_start:
  "url_hostname (server_with mkv_run) ''https://example.com/v'' = Some ''example.com''
   \<and> \<not> allow_listed ''example.com''
   \<and> response (post_clip (server_with mkv_run) (json_body [(''url'', ''https://example.com/v'')]))
       = Some (Json 500 [(''error'', ''Required'')])"
proof -
  have "schema_parse (server_with mkv_run) (json_body [(''url'', ''https://example.com/v'')])
      = Inl (Error ''Required'')"
    by (simp add: schema_parse_def json_body_def server_with_def)
  moreover have "catch_response (Error ''Required'') = Json 500 [(''error'', ''Required'')]"
    by code_simp
  ultimately have "response (post_clip (server_with mkv_run) (json_body [(''url'', ''https://example.com/v'')]))
       = Some (Json 500 [(''error'', ''Required'')])"
    by (simp add: post_clip_def)
  with example_host show ?thesis by blast
qed

text \<open>The statement for a POST body, a GET query and a POST body without \<open>start\<close>.\<close>

theorem disallowed_host_never_spawns_witness:
  "schema_parse (server_with mp4_run)
      (json_body [(''url'', ''https://example.com/v''), (''start'', ''1''), (''end'', ''5'')])
     = Inr \<lparr>parsed_url = ''https://example.com/v'', parsed_start = ''1'', parsed_end = ''5'',
             parsed_cookieHeader = None, parsed_cookiesTxtBase64 = None, parsed_format = Mp4\<rparr>
   \<and> url_hostname (server_with mp4_run) ''https://example.com/v'' = Some ''example.com''
   \<and> \<not> allow_listed ''example.com''
   \<and> response (post_clip (server_with mp4_run)
         (json_body [(''url'', ''https://example.com/v''), (''start'', ''1''), (''end'', ''5'')]))
       = Some (Json 400 [(''error'', ''Only YouTube URLs are supported'')])
   \<and> spawned_h (post_clip (server_with mp4_run)
         (json_body [(''url'', ''https://example.com/v''), (''start'', ''1''), (''end'', ''5'')])) = []
   \<and> query_string (map_of [(''url'', ''https://example.com/v'')]) ''url'' = ''https://example.com/v''
   \<and> response (get_clip (server_with mp4_run) (map_of [(''url'', ''https://example.com/v'')]))
       = Some (Json 400 [(''error'', ''Only YouTube URLs are supported'')])
   \<and> spawned_h (get_clip (server_with mp4_run) (map_of [(''url'', ''https://example.com/v'')])) = []
   \<and> json_body [(''url'', ''https://example.com/v'')] ''url'' = JString ''https://example.com/v''
   \<and> spawned_h (post_clip (server_with mp4_run) (json_body [(''url'', ''https://example.com/v'')])) = []"
proof -
  let ?srv = "server_with mp4_run"
  let ?b = "json_body [(''url'', ''https://example.com/v''), (''start'', ''1''), (''end'', ''5'')]"
  let ?p = "\<lparr>parsed_url = ''https://example.com/v'', parsed_start = ''1'', parsed_end = ''5'',
             parsed_cookieHeader = None, parsed_cookiesTxtBase64 = None, parsed_format = Mp4\<rparr>"
  let ?q = "map_of [(''url'', ''https://example.com/v'')]"
  let ?b' = "json_body [(''url'', ''https://example.com/v'')]"
  have h1: "schema_parse ?srv ?b = Inr ?p"
    by (simp add: schema_parse_def json_body_def example_host optional_min1_def enum_format_def)
  have h2: "url_hostname ?srv (parsed_url ?p) = Some ''example.com''" by (simp add: example_host)
  have h3: "\<not> allow_listed ''example.com''" by (rule example_host)
  have h4: "query_string ?q ''url'' = ''https://example.com/v''" by (simp add: query_string_def)
  have h5: "url_hostname ?srv (query_string ?q ''url'') = Some ''example.com''"
    unfolding h4 by (rule example_host)
  have h6: "?b' ''url'' = JString ''https://example.com/v''" by (simp add: json_body_def)
  have h7: "url_hostname ?srv ''https://example.com/v'' = Some ''example.com''" by (rule example_host)
  note inst = disallowed_host_never_spawns[of ?srv ?b ?p "''example.com''" ?q "''example.com''"
      ?b' "''https://example.com/v''" "''example.com''"]
  from inst h1 h2 h3 have c1: "response (post_clip ?srv ?b)
       = Some (Json 400 [(''error'', ''Only YouTube URLs are supported'')])
      \<and> spawned_h (post_clip ?srv ?b) = []" by blast
  from inst h5 h3 have c2: "response (get_clip ?srv ?q)
       = Some (Json 400 [(''error'', ''Only YouTube URLs are supported'')])
      \<and> spawned_h (get_clip ?srv ?q) = []" by blast
  from inst h6 h7 h3 have c3: "spawned_h (post_clip ?srv ?b') = []" by blast
  from h1 h7 h3 c1 h4 c2 h6 c3 show ?thesis by blast
qed

subsection \<open>Cleanup\<close>

text \<open>Once the stream is piped and the response emits an event, both files are removed.\<close>

lemma cleanup_eq: "cleanup output_p cookies_p fs = fs - removed_paths output_p cookies_p"
  by (auto simp: cleanup_def removed_paths_def Let_def split: option.splits)

lemma after_response_eq:
  "after_response srv output_p cookies_p fs =
     (if res_events srv = [] then fs else fs - removed_paths output_p cookies_p)"
proof -
  have "foldl (\<lambda>s ev. cleanup output_p cookies_p s) fs evs =
      (if evs = [] then fs else fs - removed_paths output_p cookies_p)" for evs :: "res_event list"
  proof (induction evs rule: rev_induct)
    case Nil
    show ?case by simp
  next
    case (snoc e evs)
    then show ?case by (auto simp: cleanup_eq)
  qed
  then show ?thesis by (simp add: after_response_def)
qed

lemma download_and_stream_cleaned:
  assumes "response (download_and_stream srv fs opts ct) = Some (FileStream ct' fn p)"
    "res_events srv \<noteq> []"
  shows "files_h (download_and_stream srv fs opts ct) \<inter> removed_paths p (cookiesTxtPath opts) = {}"
proof -
  let ?run = "downloadClip (world srv\<lparr>files := fs\<rparr>) opts"
  from assms(1) obtain result where r: "outcome ?run = Resolved result"
    "open_file srv (outputPath result) = None"
    by (cases "outcome ?run")
      (auto simp: download_and_stream_def Let_def catch_response_def split: option.splits if_splits)
  with assms(1) have p: "p = outputPath result"
    by (simp add: download_and_stream_def Let_def)
  have "files_h (download_and_stream srv fs opts ct) =
      files_after ?run - removed_paths (outputPath result) (cookiesTxtPath opts)"
    using r assms(2) by (simp add: download_and_stream_def Let_def after_response_eq)
  with p show ?thesis by auto
qed

lemma catch_response_json: "\<exists>st fields. catch_response err = Json st fields"
  by (cases err) (simp add: catch_response_def Let_def)

lemma early_not_stream: "response (early srv (catch_response err)) \<noteq> Some (FileStream ct fn p)"
  using catch_response_json[of err] by auto

lemma post_clip_stream_form:
  assumes "response (post_clip srv body) = Some (FileStream ct fn p)"
  shows "\<exists>parsed s e cp fs ct0. schema_parse srv body = Inr parsed \<and>
      staging srv parsed = Inr (cp, fs) \<and>
      post_clip srv body =
        download_and_stream srv fs
          (clip_options srv (parsed_url parsed) s e (parsed_cookieHeader parsed) cp
             (parsed_format parsed)) ct0"
proof (cases "schema_parse srv body")
  case (Inl err)
  with assms early_not_stream show ?thesis by (simp add: post_clip_def)
next
  case (Inr parsed)
  note p = Inr
  show ?thesis
  proof (cases "isYouTubeUrl srv (parsed_url parsed)")
    case False
    with assms p show ?thesis by (simp add: post_clip_def)
  next
    case True
    note y = True
    show ?thesis
    proof (cases "parseTimeToSeconds (parsed_start parsed)")
      case (Inl err)
      with assms p y early_not_stream show ?thesis by (simp add: post_clip_def)
    next
      case (Inr s)
      note ps = Inr
      show ?thesis
      proof (cases "parseTimeToSeconds (parsed_end parsed)")
        case (Inl err)
        with assms p y ps early_not_stream show ?thesis by (simp add: post_clip_def)
      next
        case (Inr e)
        note pe = Inr
        show ?thesis
        proof (cases "staging srv parsed")
          case (Inl err)
          with assms p y ps pe early_not_stream show ?thesis
            by (simp add: post_clip_def)
        next
          case (Inr st)
          obtain cp fs where st: "st = (cp, fs)" by (cases st)
          from p y ps pe Inr st have "post_clip srv body =
              download_and_stream srv fs
                (clip_options srv (parsed_url parsed) s e (parsed_cookieHeader parsed) cp
                   (parsed_format parsed))
                (if parsed_format parsed = Webm then ''video/webm'' else ''video/mp4'')"
            by (simp add: post_clip_def)
          with p Inr st show ?thesis by blast
        qed
      qed
    qed
  qed
qed

lemma post_clip_streamed_cleaned:
  assumes "response (post_clip srv body) = Some (FileStream ct fn p)" "res_events srv \<noteq> []"
  shows "p \<notin> files_h (post_clip srv body)"
    and "\<And>parsed c fs. schema_parse srv body = Inr parsed \<Longrightarrow>
           staging srv parsed = Inr (Some c, fs) \<Longrightarrow> c \<noteq> [] \<Longrightarrow>
           c \<notin> files_h (post_clip srv body)"
proof -
  from post_clip_stream_form[OF assms(1)] obtain parsed s e cp fs ct0 where
    f: "schema_parse srv body = Inr parsed" "staging srv parsed = Inr (cp, fs)"
      "post_clip srv body =
        download_and_stream srv fs
          (clip_options srv (parsed_url parsed) s e (parsed_cookieHeader parsed) cp
             (parsed_format parsed)) ct0"
    by blast
  let ?opts = "clip_options srv (parsed_url parsed) s e (parsed_cookieHeader parsed) cp
             (parsed_format parsed)"
  have cp: "cookiesTxtPath ?opts = cp" by (simp add: clip_options_def)
  from download_and_stream_cleaned[of srv fs ?opts ct0 ct fn p] assms f(3)
  have d: "files_h (post_clip srv body) \<inter> removed_paths p cp = {}" by (simp add: cp)
  then show "p \<notin> files_h (post_clip srv body)" by (auto simp: removed_paths_def)
  show "c \<notin> files_h (post_clip srv body)"
    if "schema_parse srv body = Inr parsed'" "staging srv parsed' = Inr (Some c, fs')" "c \<noteq> []"
    for parsed' c fs'
  proof -
    from that f have "cp = Some c" by simp
    with d that(3) show ?thesis by (auto simp: removed_paths_def)
  qed
qed

text \<open>The example server, step by step.\<close>

lemma now_text: "number_to_string 1700000000000 = ''1700000000000''"
  by code_simp

lemma example_staging:
  "staging (server_with run) 
     \<lparr>parsed_url = u, parsed_start = s, parsed_end = e, parsed_cookieHeader = None,
      parsed_cookiesTxtBase64 = Some ''Y29va2ll'', parsed_format = Mp4\<rparr>
   = Inr (Some cookie_file, {cookie_file})"
  by (simp add: staging_def truthy_def writeTempCookies_def server_with_def world_with_def
      plain_join_def now_text cookie_file_def Let_def)

lemma example_schema:
  "schema_parse (server_with run) (cookie_body s e) =
     Inr \<lparr>parsed_url = ''https://www.youtube.com/watch?v=abc'', parsed_start = s, parsed_end = e,
          parsed_cookieHeader = None, parsed_cookiesTxtBase64 = Some ''Y29va2ll'',
          parsed_format = Mp4\<rparr>"
  by (simp add: schema_parse_def cookie_body_def json_body_def example_host optional_min1_def
      enum_format_def)

lemma example_times:
  "parseTimeToSeconds ''10'' = Inr (Finite 10)" "parseTimeToSeconds ''5'' = Inr (Finite 5)"
  "parseTimeToSeconds ''1'' = Inr (Finite 1)"
  by code_simp+

lemma example_catch:
  "catch_response (Error ''end must be greater than start'') =
     Json 500 [(''error'', ''end must be greater than start'')]"
  by code_simp

lemma example_youtube: "isYouTubeUrl (server_with run) ''https://www.youtube.com/watch?v=abc''"
  by (simp add: isYouTubeUrl_allow_listed example_host)

lemma server_paths:
  "run_of (world (server_with run)\<lparr>files := fs\<rparr>) opts = run"
  "mkdir (world (server_with run)\<lparr>files := fs\<rparr>) d = None"
  "mkdir (world (server_with run)) d = None"
  "tmpdir (world (server_with run)) = ''/tmp''"
  "path_join (world (server_with run)) a b = a @ CHR ''/'' # b"
  "path_join (world (server_with run)\<lparr>files := fs\<rparr>) a b = a @ CHR ''/'' # b"
  "nanoid8 (server_with run) = ''V1StGXR8''"
  "files (world (server_with run)\<lparr>files := fs\<rparr>) = fs"
  "open_file (server_with run) p = None"
  "res_events (server_with run) = [ResFinish, ResClose]"
  by (simp_all add: server_with_def world_with_def run_of_def plain_join_def)

lemma example_sign_in:
  "trim ([] @ [CHR 0x0A] @ sign_in_message) = sign_in_message"
  "catch_response (Error sign_in_message) =
     Json 401
       [(''error'', ''YouTube requires authentication. Pass cookieHeader or cookiesTxtBase64.''),
        (''hint'', ''Export cookies.txt or forward your Cookie header for youtube.com''),
        (''docs'', ''https://github.com/yt-dlp/yt-dlp/wiki/FAQ#how-do-i-pass-cookies-to-yt-dlp'')]"
  by code_simp+

text \<open>The tool fails with the sign-in message: HTTP 401, and the cookie file stays.\<close>

lemma cookie_file_left_after_tool_failure:
  "response (post_clip (server_with sign_in_run) (cookie_body ''1'' ''5'')) =
     Some (Json 401
       [(''error'', ''YouTube requires authentication. Pass cookieHeader or cookiesTxtBase64.''),
        (''hint'', ''Export cookies.txt or forward your Cookie header for youtube.com''),
        (''docs'', ''https://github.com/yt-dlp/yt-dlp/wiki/FAQ#how-do-i-pass-cookies-to-yt-dlp'')])
   \<and> length (spawned_h (post_clip (server_with sign_in_run) (cookie_body ''1'' ''5''))) = 1
   \<and> files_h (post_clip (server_with sign_in_run) (cookie_body ''1'' ''5'')) = {cookie_file}"
proof -
  let ?srv = "server_with sign_in_run"
  let ?opts = "clip_options ?srv ''https://www.youtube.com/watch?v=abc'' (Finite 1) (Finite 5)
      None (Some cookie_file) Mp4"
  let ?w = "world ?srv\<lparr>files := {cookie_file}\<rparr>"
  let ?msg = "sign_in_message"
  have h1: "\<not> js_le (endSeconds ?opts) (startSeconds ?opts)" by (simp add: clip_options_def)
  have h2: "mkdir ?w (tmpRoot_of ?w ?opts) = None" by (simp add: server_paths)
  have sup: "supervised ?w ?opts =
      (Resolved 1, \<lparr>stdout_buf = [], stderr_buf = ?msg, killedByTimeout = False, signals = []\<rparr>)"
    unfolding supervised_def server_paths
    by (simp add: sign_in_run_def timer_delay_def setTimeout_delay_def TIMEOUT_MAX_def clip_options_def sup_init_def on_close_def)
  have ne: "sign_in_message \<noteq> []" by (simp add: sign_in_message_def)
  have o: "outcome (downloadClip ?w ?opts) = Rejected (Error ?msg)"
    using downloadClip_spawned(3)[OF h1 h2, of 1] example_sign_in(1) ne
    by (simp add: sup Let_def)
  have sp: "spawned (downloadClip ?w ?opts) = [spawn_args ?w ?opts]"
    by (rule downloadClip_spawned(2)[OF h1 h2])
  have fa: "files_after (downloadClip ?w ?opts) = {cookie_file}"
    using h1 h2 unfolding downloadClip_def Let_def server_paths
    by (simp add: sign_in_run_def server_paths split: prod.splits)
  have "download_and_stream ?srv {cookie_file} ?opts ''video/mp4'' =
      \<lparr>response = Some (catch_response (Error ?msg)),
       spawned_h = [spawn_args ?w ?opts], files_h = {cookie_file}\<rparr>"
    by (simp add: download_and_stream_def o sp fa)
  then have "post_clip ?srv (cookie_body ''1'' ''5'') =
      \<lparr>response = Some (catch_response (Error ?msg)),
       spawned_h = [spawn_args ?w ?opts], files_h = {cookie_file}\<rparr>"
    by (simp add: post_clip_def example_schema example_youtube example_times example_staging)
  then show ?thesis by (simp add: example_sign_in(2))
qed

text \<open>The tool succeeds and the response finishes: the clip and the cookie file are removed.\<close>

lemma files_removed_after_stream:
  "post_clip (server_with mp4_run) (cookie_body ''1'' ''5'') =
     \<lparr>response = Some (FileStream ''video/mp4'' ''aiclips-V1StGXR8.mp4''
                         ''/tmp/aiclips/aiclips-V1StGXR8.mp4''),
      spawned_h = spawned_h (post_clip (server_with mp4_run) (cookie_body ''1'' ''5'')),
      files_h = {}\<rparr>"
proof -
  let ?srv = "server_with mp4_run"
  let ?opts = "clip_options ?srv ''https://www.youtube.com/watch?v=abc'' (Finite 1) (Finite 5)
      None (Some cookie_file) Mp4"
  let ?w = "world ?srv\<lparr>files := {cookie_file}\<rparr>"
  let ?out = "''/tmp/aiclips/aiclips-V1StGXR8.mp4''"
  have h1: "\<not> js_le (endSeconds ?opts) (startSeconds ?opts)" by (simp add: clip_options_def)
  have h2: "mkdir ?w (tmpRoot_of ?w ?opts) = None" by (simp add: server_paths)
  have sup: "supervised ?w ?opts =
      (Resolved 0, \<lparr>stdout_buf = [], stderr_buf = [], killedByTimeout = False, signals = []\<rparr>)"
    unfolding supervised_def server_paths
    by (simp add: mp4_run_def timer_delay_def setTimeout_delay_def TIMEOUT_MAX_def clip_options_def sup_init_def on_close_def)
  have h3: "fst (supervised ?w ?opts) = Resolved 0" by (simp add: sup)
  have stem: "stem_of ?w ?opts = ''/tmp/aiclips/aiclips-V1StGXR8''"
    by (simp add: stem_of_def tmpRoot_of_def baseName_of_def clip_options_def or_default_def
        server_paths)
  have pd: "path_dirname ?w ''/tmp/aiclips/aiclips-V1StGXR8'' = ''/tmp/aiclips''"
    "path_basename ?w ''/tmp/aiclips/aiclips-V1StGXR8'' = ''aiclips-V1StGXR8''"
    "path_basename (world ?srv) ?out = ''aiclips-V1StGXR8.mp4''"
    by (simp_all add: server_with_def world_with_def plain_dirname_def plain_basename_def)
  have fc: "files_closed ?w ?opts = {cookie_file, ?out}"
    by (auto simp: files_closed_def server_paths mp4_run_def)
  have f: "findProducedFile ?w {cookie_file, ?out} ''/tmp/aiclips'' ''aiclips-V1StGXR8'' = Inr (Some ?out)"
    by (simp add: findProducedFile_def server_paths)
  have o: "outcome (downloadClip ?w ?opts) = Resolved \<lparr>outputPath = ?out, stdout = [], stderr = []\<rparr>"
    unfolding downloadClip_exit_zero[OF h1 h2 h3] stem pd fc f sup by simp
  have fa: "files_after (downloadClip ?w ?opts) = {cookie_file, ?out}"
    using h1 h2 fc unfolding downloadClip_def Let_def files_closed_def
    by (simp split: prod.splits)
  have cp: "cookiesTxtPath ?opts = Some cookie_file" by (simp add: clip_options_def)
  have ne: "cookie_file \<noteq> []" by (simp add: cookie_file_def)
  have "files_h (download_and_stream ?srv {cookie_file} ?opts ''video/mp4'') = {}"
    "response (download_and_stream ?srv {cookie_file} ?opts ''video/mp4'') =
       Some (FileStream ''video/mp4'' ''aiclips-V1StGXR8.mp4'' ?out)"
    using ne by (auto simp: download_and_stream_def o fa server_paths pd after_response_eq
        removed_paths_def cp Let_def)
  moreover have "post_clip ?srv (cookie_body ''1'' ''5'') =
      download_and_stream ?srv {cookie_file} ?opts ''video/mp4''"
    by (simp add: post_clip_def example_schema example_youtube example_times example_staging)
  ultimately show ?thesis by simp
qed

text \<open>
  C1. When a request is over, the produced output file and the staged credential file are
  meant to be gone from temporary storage, however the request ended. The cleanup is
  registered on the response once the stream is piped, and then both files are removed
  (\<open>post_clip_streamed_cleaned\<close>, \<open>files_removed_after_stream\<close>); the catch handler has
  no cleanup. A POST request with a cookie-jar payload whose extraction fails before
  streaming leaves the staged cookie file in storage: here the end offset is not after the
  start offset, so \<open>downloadClip\<close> rejects before it spawns anything, the response is
  HTTP 500, and the cookie file is still there. The same happens when the tool itself fails
  (\<open>cookie_file_left_after_tool_failure\<close>).
\<close>

theorem cookie_file_left_after_failure:
  "post_clip (server_with mp4_run) (cookie_body ''10'' ''5'') =
     \<lparr>response = Some (Json 500 [(''error'', ''end must be greater than start'')]),
      spawned_h = [], files_h = {cookie_file}\<rparr>"
proof -
  let ?srv = "server_with mp4_run"
  let ?opts = "clip_options ?srv ''https://www.youtube.com/watch?v=abc'' (Finite 10) (Finite 5)
      None (Some cookie_file) Mp4"
  have d: "downloadClip (world ?srv\<lparr>files := {cookie_file}\<rparr>) ?opts =
      \<lparr>outcome = Rejected (Error ''end must be greater than start''), spawned = [],
       signals_sent = [], files_after = {cookie_file}\<rparr>"
    by (simp add: downloadClip_def clip_options_def)
  have "download_and_stream ?srv {cookie_file} ?opts ''video/mp4'' =
      \<lparr>response = Some (Json 500 [(''error'', ''end must be greater than start'')]),
       spawned_h = [], files_h = {cookie_file}\<rparr>"
    by (simp add: download_and_stream_def d example_catch)
  then show ?thesis
    by (simp add: post_clip_def example_schema example_youtube example_times example_staging)
qed


end
